theory Spec2Isabelle
  imports Complex_Main "HOL-Library.Sublist"
begin

section \<open>JavaScript values\<close>

text \<open>
  The values the manager stores, compares and hands on. A JavaScript number is a finite
  value, one of the two infinities, or NaN; the program only stores numbers, compares
  them and tests their sign, so a finite number is kept as a real (the two zeros are
  not told apart, which no operation below does either). Functions and objects have an
  identity: \<open>===\<close> on them is sameness of reference, whatever their contents.
  The function \<open>HandleWebSocketCloseEvent\<close> is the instance's own
  \<open>this.handleWebSocketCloseEvent\<close>; \<open>AppFn n\<close> are the functions of the
  application.
\<close>

datatype jsnum = Fin real | PosInf | NegInf | NaN

datatype fn = HandleWebSocketCloseEvent | AppFn nat

datatype jsval =
    JUndefined
  | JNull
  | JBool bool
  | JNum jsnum
  | JStr string
  | JFun fn
  | JObj nat "(string \<times> jsval) list"

text \<open>Strict equality \<open>a === b\<close>: NaN differs from itself, objects and functions
  are compared by reference.\<close>

fun strict_eq :: "jsval \<Rightarrow> jsval \<Rightarrow> bool" where
  "strict_eq JUndefined JUndefined = True"
| "strict_eq JNull JNull = True"
| "strict_eq (JBool a) (JBool b) = (a = b)"
| "strict_eq (JNum a) (JNum b) = (a \<noteq> NaN \<and> b \<noteq> NaN \<and> a = b)"
| "strict_eq (JStr a) (JStr b) = (a = b)"
| "strict_eq (JFun a) (JFun b) = (a = b)"
| "strict_eq (JObj i _) (JObj j _) = (i = j)"
| "strict_eq _ _ = False"

text \<open>\<open>args[index]\<close>: reading an array past its end gives \<open>undefined\<close>.\<close>

definition arg_at :: "jsval list \<Rightarrow> nat \<Rightarrow> jsval" where
  "arg_at args i = (if i < length args then args ! i else JUndefined)"

text \<open>\<open>obj[name]\<close> for the names read below: a property the object does not list
  is \<open>undefined\<close>, as is every such property of a number, string, boolean or
  function.\<close>

fun get_prop :: "jsval \<Rightarrow> string \<Rightarrow> jsval" where
  "get_prop (JObj _ props) name = (case map_of props name of Some v \<Rightarrow> v | None \<Rightarrow> JUndefined)"
| "get_prop _ name = JUndefined"

fun ToBoolean :: "jsval \<Rightarrow> bool" where
  "ToBoolean JUndefined = False"
| "ToBoolean JNull = False"
| "ToBoolean (JBool b) = b"
| "ToBoolean (JNum n) = (n \<noteq> NaN \<and> n \<noteq> Fin 0)"
| "ToBoolean (JStr s) = (s \<noteq> [])"
| "ToBoolean (JFun _) = True"
| "ToBoolean (JObj _ _) = True"

text \<open>
  \<open>ToNumber\<close>, as the comparison \<open>x > 0\<close> applies it. What a string, a function
  or an object converts to is the runtime's business (number syntax, rounding,
  \<open>valueOf\<close>): it is the parameter \<open>rt\<close>.
\<close>

fun ToNumber :: "(jsval \<Rightarrow> jsnum) \<Rightarrow> jsval \<Rightarrow> jsnum" where
  "ToNumber rt JUndefined = NaN"
| "ToNumber rt JNull = Fin 0"
| "ToNumber rt (JBool b) = Fin (if b then 1 else 0)"
| "ToNumber rt (JNum n) = n"
| "ToNumber rt v = rt v"

text \<open>\<open>x > 0\<close>\<close>

definition gt_zero :: "(jsval \<Rightarrow> jsnum) \<Rightarrow> jsval \<Rightarrow> bool" where
  "gt_zero rt x = (case ToNumber rt x of Fin r \<Rightarrow> 0 < r | PosInf \<Rightarrow> True | NegInf \<Rightarrow> False | NaN \<Rightarrow> False)"

section \<open>Durations\<close>

definition convertDaysToMS :: "real \<Rightarrow> real" where
  "convertDaysToMS days = days * 1000 * 60 * 60 * 24"

definition convertHoursToMS :: "real \<Rightarrow> real" where
  "convertHoursToMS hours = hours * 1000 * 60 * 60"

definition dayInMS :: real where
  "dayInMS = convertDaysToMS 1"

definition hourInMS :: real where
  "hourInMS = convertHoursToMS 1"

fun Number_isFinite :: "jsval \<Rightarrow> bool" where
  "Number_isFinite (JNum (Fin _)) = True"
| "Number_isFinite _ = False"

text \<open>The \<open>switch\<close> compares with \<open>===\<close>, first match first.\<close>

definition parseTimeToMS :: "jsval \<Rightarrow> jsval" where
  "parseTimeToMS time =
     (if Number_isFinite time then time
      else if strict_eq time (JStr ''d'') \<or> strict_eq time (JStr ''D'')
              \<or> strict_eq time (JStr ''day'') then JNum (Fin dayInMS)
      else if strict_eq time (JStr ''h'') \<or> strict_eq time (JStr ''H'')
              \<or> strict_eq time (JStr ''hour'') then JNum (Fin hourInMS)
      else time)"

section \<open>The runtime: transports and timers\<close>

text \<open>
  The manager runs on two collaborators that are not part of the repository: the
  WebSocket objects it creates and the timers of the event loop. They are modelled as
  far as the manager uses them.

  A transport has a state, the list of listeners attached to it, and (for reading what
  the manager did to it) the log of the calls made on it. Its listener list follows the
  DOM: a listener is a type, a callback and a capture flag; attaching one that is
  already there changes nothing, a null callback attaches nothing, detaching removes the
  listener with the same three components. Of an options object only the \<open>capture\<close>
  member is read; options objects are taken to have no \<open>once\<close>, \<open>passive\<close> or
  \<open>signal\<close> member.

  The transport checks its arguments before it does anything: \<open>addEventListener\<close>
  and \<open>removeEventListener\<close> need two arguments, and the callback must be an object
  (a function is one), \<open>null\<close> or \<open>undefined\<close>; \<open>send\<close> needs an argument and
  a transport that is no longer connecting. Otherwise the call throws and the transport
  is as it was. The log holds the calls that returned. Creating a transport is taken to
  succeed.
\<close>

datatype error = TypeError | InvalidStateError

datatype ready_state = CONNECTING | OPEN | CLOSING | CLOSED

datatype call =
    CallAddEventListener "jsval list"
  | CallRemoveEventListener "jsval list"
  | CallClose
  | CallSend "jsval list"

record websocket =
  ws_url :: jsval
  readyState :: ready_state
  listeners :: "(jsval \<times> jsval \<times> bool) list"
  calls :: "call list"

text \<open>The capture flag of the third argument of \<open>addEventListener\<close>: a boolean is
  the flag, an object gives its \<open>capture\<close> member, nothing gives false.\<close>

fun flatten_capture :: "jsval \<Rightarrow> bool" where
  "flatten_capture (JBool b) = b"
| "flatten_capture (JObj i props) = ToBoolean (get_prop (JObj i props) ''capture'')"
| "flatten_capture (JFun _) = False"
| "flatten_capture v = ToBoolean v"

definition listener_of :: "jsval list \<Rightarrow> jsval \<times> jsval \<times> bool" where
  "listener_of args = (arg_at args 0, arg_at args 1, flatten_capture (arg_at args 2))"

fun callback_ok :: "jsval \<Rightarrow> bool" where
  "callback_ok (JFun _) = True"
| "callback_ok (JObj _ _) = True"
| "callback_ok JNull = True"
| "callback_ok JUndefined = True"
| "callback_ok _ = False"

definition accepts :: "jsval list \<Rightarrow> bool" where
  "accepts args \<longleftrightarrow> 2 \<le> length args \<and> callback_ok (arg_at args 1)"

text \<open>What an accepted \<open>addEventListener\<close> and \<open>removeEventListener\<close> do to
  the transport.\<close>

definition add_listener :: "jsval list \<Rightarrow> websocket \<Rightarrow> websocket" where
  "add_listener args s =
     s\<lparr>listeners :=
          (if arg_at args 1 = JNull \<or> arg_at args 1 = JUndefined
              \<or> listener_of args \<in> set (listeners s)
           then listeners s else listeners s @ [listener_of args]),
       calls := calls s @ [CallAddEventListener args]\<rparr>"

definition remove_listener :: "jsval list \<Rightarrow> websocket \<Rightarrow> websocket" where
  "remove_listener args s =
     s\<lparr>listeners := filter (\<lambda>l. l \<noteq> listener_of args) (listeners s),
       calls := calls s @ [CallRemoveEventListener args]\<rparr>"

text \<open>The methods of the transport: the error thrown, or the transport after the call.\<close>

definition attach :: "jsval list \<Rightarrow> websocket \<Rightarrow> error + websocket" where
  "attach args s = (if accepts args then Inr (add_listener args s) else Inl TypeError)"

definition detach :: "jsval list \<Rightarrow> websocket \<Rightarrow> error + websocket" where
  "detach args s = (if accepts args then Inr (remove_listener args s) else Inl TypeError)"

text \<open>\<open>close()\<close> on a transport that is not yet closed or closing starts its
  closing; the close event comes later, from the event loop.\<close>

definition ws_close :: "websocket \<Rightarrow> websocket" where
  "ws_close s =
     s\<lparr>readyState := (if readyState s = CLOSED then CLOSED else CLOSING),
       calls := calls s @ [CallClose]\<rparr>"

definition ws_send :: "jsval list \<Rightarrow> websocket \<Rightarrow> error + websocket" where
  "ws_send args s =
     (if args = [] then Inl TypeError
      else if readyState s = CONNECTING then Inl InvalidStateError
      else Inr (s\<lparr>calls := calls s @ [CallSend args]\<rparr>))"

text \<open>
  The program creates two kinds of timers: the periodic one of \<open>startReconnecting\<close>
  and the one-shot one of \<open>handleWebSocketCloseEvent\<close>. A timer records which of the
  two callbacks it runs and the delay it was given, as given.
\<close>

datatype timer_callback = ReconnectTick | GiveUp

record timer =
  repeating :: bool
  callback :: timer_callback
  delay :: jsval

section \<open>The manager\<close>

text \<open>
  The fields of a \<open>ReconnectingWebSocket\<close> (\<open>instance_ref\<close> is the field
  \<open>instance\<close>: a reference to a transport), followed by the runtime it lives in: the
  transports created so far, the timers now set, the next timer handle, and the lines
  written by \<open>console.warn\<close> (the attempt number of each).
  \<open>reconnectInterval\<close> is \<open>None\<close> while the field is \<open>undefined\<close> or
  \<open>null\<close>, which the program tells apart nowhere, and a timer handle otherwise;
  handles are positive, so a handle is truthy.
\<close>

record rws =
  autoReconnectMS :: jsval
  stopReconnectingAfterMS :: jsval
  url :: jsval
  reconnectAttempts :: nat
  eventListeners :: "jsval list list"
  instance_ref :: nat
  reconnectInterval :: "nat option"
  sockets :: "nat \<Rightarrow> websocket"
  socket_count :: nat
  timers :: "nat \<rightharpoonup> timer"
  next_timer :: nat
  console :: "nat list"

definition on_instance :: "(websocket \<Rightarrow> websocket) \<Rightarrow> rws \<Rightarrow> rws" where
  "on_instance f w = w\<lparr>sockets := (sockets w)(instance_ref w := f (sockets w (instance_ref w)))\<rparr>"

text \<open>
  The program catches nothing, so a method that calls a throwing method stops there. How
  a method ends: it returns, or it throws; either way the manager is in the state the
  method left it in. \<open>and_then\<close> is one statement after another, and
  \<open>call_instance\<close> is a call of a method of \<open>this.instance\<close> that may throw.
\<close>

datatype completion = Normal rws | Throw error rws

fun state_of :: "completion \<Rightarrow> rws" where
  "state_of (Normal w) = w"
| "state_of (Throw e w) = w"

fun and_then :: "completion \<Rightarrow> (rws \<Rightarrow> completion) \<Rightarrow> completion" where
  "and_then (Normal w) f = f w"
| "and_then (Throw e w) f = Throw e w"

definition call_instance :: "(websocket \<Rightarrow> error + websocket) \<Rightarrow> rws \<Rightarrow> completion" where
  "call_instance f w =
     (case f (sockets w (instance_ref w)) of
        Inl e \<Rightarrow> Throw e w
      | Inr s \<Rightarrow> Normal (w\<lparr>sockets := (sockets w)(instance_ref w := s)\<rparr>))"

definition new_WebSocket :: "jsval \<Rightarrow> websocket" where
  "new_WebSocket u = \<lparr>ws_url = u, readyState = CONNECTING, listeners = [], calls = []\<rparr>"

definition set_timer :: "timer \<Rightarrow> rws \<Rightarrow> rws" where
  "set_timer t w = w\<lparr>timers := (timers w)(next_timer w \<mapsto> t), next_timer := Suc (next_timer w)\<rparr>"

definition clearInterval :: "nat option \<Rightarrow> rws \<Rightarrow> rws" where
  "clearInterval h w = (case h of None \<Rightarrow> w | Some i \<Rightarrow> w\<lparr>timers := (timers w)(i := None)\<rparr>)"

definition closeArgs :: "jsval list" where
  "closeArgs = [JStr ''close'', JFun HandleWebSocketCloseEvent]"

text \<open>\<open>eventListener.every((eventListenerArg, index) => args[index] === eventListenerArg)\<close>,
  from index \<open>i\<close> on.\<close>

fun every_from :: "nat \<Rightarrow> jsval list \<Rightarrow> jsval list \<Rightarrow> bool" where
  "every_from i [] args = True"
| "every_from i (eventListenerArg # rest) args =
     (strict_eq (arg_at args i) eventListenerArg \<and> every_from (Suc i) rest args)"

definition addEventListener :: "jsval list \<Rightarrow> rws \<Rightarrow> completion" where
  "addEventListener args w =
     call_instance (attach args) (w\<lparr>eventListeners := eventListeners w @ [args]\<rparr>)"

definition removeEventListener :: "jsval list \<Rightarrow> rws \<Rightarrow> completion" where
  "removeEventListener args w =
     call_instance (detach args)
       (w\<lparr>eventListeners :=
            filter (\<lambda>eventListener. \<not> every_from 0 eventListener args) (eventListeners w)\<rparr>)"

definition close :: "rws \<Rightarrow> rws" where
  "close w = on_instance ws_close w"

definition send :: "jsval list \<Rightarrow> rws \<Rightarrow> completion" where
  "send args w = call_instance (ws_send args) w"

definition addCloseEventListener :: "rws \<Rightarrow> completion" where
  "addCloseEventListener w = addEventListener closeArgs w"

definition resetReconnectAttempts :: "rws \<Rightarrow> rws" where
  "resetReconnectAttempts w = w\<lparr>reconnectAttempts := 0\<rparr>"

definition stopReconnecting :: "rws \<Rightarrow> rws" where
  "stopReconnecting w = (clearInterval (reconnectInterval w) w)\<lparr>reconnectInterval := None\<rparr>"

definition initWebSocketInstance :: "rws \<Rightarrow> completion" where
  "initWebSocketInstance w =
     (let w1 = w\<lparr>sockets := (sockets w)(socket_count w := new_WebSocket (url w)),
                  socket_count := Suc (socket_count w),
                  instance_ref := socket_count w\<rparr>
      in if reconnectInterval w1 = None then addCloseEventListener w1 else Normal w1)"

text \<open>\<open>forEach\<close> over the recorded entries: the first call that throws ends it.\<close>

fun forEach_attach :: "jsval list list \<Rightarrow> rws \<Rightarrow> completion" where
  "forEach_attach [] w = Normal w"
| "forEach_attach (eventListener # rest) w =
     and_then (call_instance (attach eventListener) w) (forEach_attach rest)"

definition attachPreviousEventListeners :: "rws \<Rightarrow> completion" where
  "attachPreviousEventListeners w = forEach_attach (eventListeners w) w"

definition startReconnecting :: "rws \<Rightarrow> rws" where
  "startReconnecting w =
     (set_timer \<lparr>repeating = True, callback = ReconnectTick, delay = autoReconnectMS w\<rparr> w)
       \<lparr>reconnectInterval := Some (next_timer w)\<rparr>"

text \<open>The function given to \<open>setInterval\<close> in \<open>startReconnecting\<close>.\<close>

definition reconnectTick :: "rws \<Rightarrow> completion" where
  "reconnectTick w =
     (let w1 = w\<lparr>reconnectAttempts := reconnectAttempts w + 1\<rparr>;
          w2 = w1\<lparr>console := console w1 @ [reconnectAttempts w1]\<rparr>;
          readyState = readyState (sockets w2 (instance_ref w2))
      in if readyState = CLOSED \<or> readyState = CLOSING
         then and_then (removeEventListener closeArgs w2) initWebSocketInstance
         else if readyState = OPEN
         then and_then
                (attachPreviousEventListeners (resetReconnectAttempts (stopReconnecting w2)))
                addCloseEventListener
         else Normal w2)"

text \<open>The function given to \<open>setTimeout\<close> in \<open>handleWebSocketCloseEvent\<close>.\<close>

definition giveUp :: "rws \<Rightarrow> rws" where
  "giveUp w =
     (if reconnectInterval w \<noteq> None then resetReconnectAttempts (stopReconnecting w) else w)"

definition handleWebSocketCloseEvent :: "(jsval \<Rightarrow> jsnum) \<Rightarrow> rws \<Rightarrow> rws" where
  "handleWebSocketCloseEvent rt w =
     (let w1 = startReconnecting w
      in if gt_zero rt (stopReconnectingAfterMS w1)
         then set_timer \<lparr>repeating = False, callback = GiveUp,
                          delay = stopReconnectingAfterMS w1\<rparr> w1
         else w1)"

text \<open>
  The constructor. Its second parameter is \<open>{ autoReconnectMS = 3000,
  stopReconnectingAfter = hourInMS } = {}\<close>: an omitted (undefined) argument is the
  empty object, \<open>null\<close> cannot be destructured (a TypeError), and a property that is
  missing or undefined takes its default. Before \<open>initWebSocketInstance\<close> the field
  \<open>instance\<close> is unset and nothing reads it. The runtime starts with no transport and
  no timer of this manager.
\<close>

definition or_default :: "jsval \<Rightarrow> jsval \<Rightarrow> jsval" where
  "or_default v d = (if v = JUndefined then d else v)"

definition new_ReconnectingWebSocket :: "jsval \<Rightarrow> jsval \<Rightarrow> error + rws" where
  "new_ReconnectingWebSocket u config =
     (if config = JNull then Inl TypeError
      else case initWebSocketInstance
        \<lparr>autoReconnectMS = or_default (get_prop config ''autoReconnectMS'') (JNum (Fin 3000)),
         stopReconnectingAfterMS =
           parseTimeToMS (or_default (get_prop config ''stopReconnectingAfter'') (JNum (Fin hourInMS))),
         url = u,
         reconnectAttempts = 0,
         eventListeners = [],
         instance_ref = 0,
         reconnectInterval = None,
         sockets = (\<lambda>_. new_WebSocket JUndefined),
         socket_count = 0,
         timers = Map.empty,
         next_timer = 1,
         console = []\<rparr>
        of Normal w \<Rightarrow> Inr w | Throw e w \<Rightarrow> Inl e)"

section \<open>Events\<close>

text \<open>
  Everything happens in callbacks, one at a time. An event is a call of the application
  on the manager, a change of a transport (it opens, it starts closing, it is closed
  and its close event is delivered), or a timer that fires. An event that cannot happen
  in the state (a transport that does not exist, a closed transport closing again, a
  timer that is not set) leaves the state as it is. Listeners of the application are
  opaque: delivering an event to them does not change the manager. What a call of the
  application throws goes to the application, and what a timer callback throws goes to
  the event loop: the manager stays in the state the call left it in.
\<close>

datatype event =
    AddEventListener "jsval list"
  | RemoveEventListener "jsval list"
  | Close
  | Send "jsval list"
  | SocketOpens nat
  | SocketClosing nat
  | SocketCloses nat
  | TimerFires nat

text \<open>Delivery of the close event of transport \<open>sid\<close>: its listeners of type
  \<open>close\<close> run in order; the manager's own is \<open>handleWebSocketCloseEvent\<close>.\<close>

definition dispatch_close :: "(jsval \<Rightarrow> jsnum) \<Rightarrow> nat \<Rightarrow> rws \<Rightarrow> rws" where
  "dispatch_close rt sid w =
     foldl (\<lambda>w l. if fst l = JStr ''close'' \<and> fst (snd l) = JFun HandleWebSocketCloseEvent
                   then handleWebSocketCloseEvent rt w else w)
       w (listeners (sockets w sid))"

definition set_readyState :: "nat \<Rightarrow> ready_state \<Rightarrow> rws \<Rightarrow> rws" where
  "set_readyState sid r w = w\<lparr>sockets := (sockets w)(sid := (sockets w sid)\<lparr>readyState := r\<rparr>)\<rparr>"

fun step :: "(jsval \<Rightarrow> jsnum) \<Rightarrow> rws \<Rightarrow> event \<Rightarrow> rws" where
  "step rt w (AddEventListener args) = state_of (addEventListener args w)"
| "step rt w (RemoveEventListener args) = state_of (removeEventListener args w)"
| "step rt w Close = close w"
| "step rt w (Send args) = state_of (send args w)"
| "step rt w (SocketOpens sid) =
     (if sid < socket_count w \<and> readyState (sockets w sid) = CONNECTING
      then set_readyState sid OPEN w else w)"
| "step rt w (SocketClosing sid) =
     (if sid < socket_count w \<and> readyState (sockets w sid) \<in> {CONNECTING, OPEN}
      then set_readyState sid CLOSING w else w)"
| "step rt w (SocketCloses sid) =
     (if sid < socket_count w \<and> readyState (sockets w sid) \<noteq> CLOSED
      then dispatch_close rt sid (set_readyState sid CLOSED w) else w)"
| "step rt w (TimerFires i) =
     (case timers w i of
        None \<Rightarrow> w
      | Some t \<Rightarrow>
          (let w1 = (if repeating t then w else w\<lparr>timers := (timers w)(i := None)\<rparr>)
           in case callback t of
                ReconnectTick \<Rightarrow> state_of (reconnectTick w1)
              | GiveUp \<Rightarrow> giveUp w1))"

definition run :: "(jsval \<Rightarrow> jsnum) \<Rightarrow> rws \<Rightarrow> event list \<Rightarrow> rws" where
  "run rt w evs = foldl (step rt) w evs"

text \<open>The application does not hand the manager's own close handler back to it.\<close>

fun app_safe :: "event \<Rightarrow> bool" where
  "app_safe (AddEventListener args) = (JFun HandleWebSocketCloseEvent \<notin> set args)"
| "app_safe (RemoveEventListener args) = (JFun HandleWebSocketCloseEvent \<notin> set args)"
| "app_safe _ = True"

section \<open>Definitions used in the proofs\<close>

text \<open>\<open>attachPreviousEventListeners\<close> seen from the transport: the recorded entries
  attached one after the other.\<close>

definition attach_all :: "jsval list list \<Rightarrow> websocket \<Rightarrow> websocket" where
  "attach_all es s = foldl (\<lambda>s e. add_listener e s) s es"

text \<open>A call of a method of a transport as the manager's state shows it: the transport
  after the call if the call returned, the transport as it was if the call threw.\<close>

definition try_call :: "(websocket \<Rightarrow> error + websocket) \<Rightarrow> websocket \<Rightarrow> websocket" where
  "try_call f s = (case f s of Inl e \<Rightarrow> s | Inr s' \<Rightarrow> s')"

text \<open>The disconnect observer as a listener of a transport, and the listeners whose
  callback is the manager's close handler.\<close>

definition observer :: "jsval \<times> jsval \<times> bool" where
  "observer = listener_of closeArgs"

definition own :: "jsval \<times> jsval \<times> bool \<Rightarrow> bool" where
  "own l \<longleftrightarrow> fst (snd l) = JFun HandleWebSocketCloseEvent"

definition is_close_handler :: "jsval \<times> jsval \<times> bool \<Rightarrow> bool" where
  "is_close_handler l \<longleftrightarrow> fst l = JStr ''close'' \<and> fst (snd l) = JFun HandleWebSocketCloseEvent"

text \<open>
  What holds in every state the manager reaches when the application never passes the
  manager's own close handler to it: the current transport exists; no transport has a
  listener twice; the close handler is attached only as the disconnect observer; a
  transport that still can close and has the observer is the current one, and then no
  retry cycle is active; every periodic timer is the one \<open>reconnectInterval\<close> holds,
  and a timer repeats exactly when it runs the reconnect tick; the only recorded entry
  that mentions the close handler is the observer's; and during a retry cycle, once the
  current transport is a replacement, the observer's entry is not recorded.
\<close>

definition inv_inst :: "rws \<Rightarrow> bool" where
  "inv_inst w \<longleftrightarrow> instance_ref w < socket_count w"

definition inv_distinct :: "rws \<Rightarrow> bool" where
  "inv_distinct w \<longleftrightarrow> (\<forall>sid. distinct (listeners (sockets w sid)))"

definition inv_own :: "rws \<Rightarrow> bool" where
  "inv_own w \<longleftrightarrow> (\<forall>sid. \<forall>l \<in> set (listeners (sockets w sid)). own l \<longrightarrow> l = observer)"

definition inv_obs :: "rws \<Rightarrow> bool" where
  "inv_obs w \<longleftrightarrow> (\<forall>sid. observer \<in> set (listeners (sockets w sid)) \<longrightarrow>
          readyState (sockets w sid) \<noteq> CLOSED \<longrightarrow>
          sid = instance_ref w \<and> reconnectInterval w = None)"

definition inv_timers :: "rws \<Rightarrow> bool" where
  "inv_timers w \<longleftrightarrow> (\<forall>i t. timers w i = Some t \<longrightarrow>
          i < next_timer w \<and> (repeating t = (callback t = ReconnectTick))
          \<and> (repeating t \<longrightarrow> reconnectInterval w = Some i))"

definition inv_reg :: "rws \<Rightarrow> bool" where
  "inv_reg w \<longleftrightarrow>
     (\<forall>e \<in> set (eventListeners w). JFun HandleWebSocketCloseEvent \<in> set e \<longrightarrow> e = closeArgs)"

definition inv_cycle :: "rws \<Rightarrow> bool" where
  "inv_cycle w \<longleftrightarrow>
     (reconnectInterval w \<noteq> None \<longrightarrow> readyState (sockets w (instance_ref w)) \<noteq> CLOSED \<longrightarrow>
          closeArgs \<notin> set (eventListeners w))"

definition consistent :: "rws \<Rightarrow> bool" where
  "consistent w \<longleftrightarrow>
     inv_inst w \<and> inv_distinct w \<and> inv_own w \<and> inv_obs w \<and> inv_timers w \<and> inv_reg w \<and> inv_cycle w"

text \<open>The configuration of a manager, which no operation changes.\<close>

definition config_of :: "rws \<Rightarrow> jsval \<times> jsval \<times> jsval" where
  "config_of w = (autoReconnectMS w, stopReconnectingAfterMS w, url w)"

text \<open>
  A manager that has given up: no retry cycle, and the observer only on transports that
  are closed for good. \<open>quiet w w'\<close>: from \<open>w\<close> to \<open>w'\<close> no attempt was logged,
  no transport was created or made current, and the manager has still given up.
\<close>

definition given_up :: "rws \<Rightarrow> bool" where
  "given_up w \<longleftrightarrow> reconnectInterval w = None
     \<and> (\<forall>sid. observer \<in> set (listeners (sockets w sid)) \<longrightarrow> readyState (sockets w sid) = CLOSED)"

definition quiet :: "rws \<Rightarrow> rws \<Rightarrow> bool" where
  "quiet w w' \<longleftrightarrow> console w' = console w \<and> socket_count w' = socket_count w
     \<and> instance_ref w' = instance_ref w \<and> reconnectAttempts w' = reconnectAttempts w
     \<and> given_up w'"

text \<open>A property of every timer that is set, and of the timers the close handler would
  set next.\<close>

definition timers_ok :: "(timer \<Rightarrow> bool) \<Rightarrow> rws \<Rightarrow> bool" where
  "timers_ok P w \<longleftrightarrow> (\<forall>k t. timers w k = Some t \<longrightarrow> P t)"

definition new_timers_ok :: "(jsval \<Rightarrow> jsnum) \<Rightarrow> (timer \<Rightarrow> bool) \<Rightarrow> rws \<Rightarrow> bool" where
  "new_timers_ok rt P w \<longleftrightarrow>
     P \<lparr>repeating = True, callback = ReconnectTick, delay = autoReconnectMS w\<rparr>
   \<and> (gt_zero rt (stopReconnectingAfterMS w) \<longrightarrow>
        P \<lparr>repeating = False, callback = GiveUp, delay = stopReconnectingAfterMS w\<rparr>)"

text \<open>A number that is zero or negative.\<close>

fun not_positive :: "jsnum \<Rightarrow> bool" where
  "not_positive (Fin r) = (r \<le> 0)"
| "not_positive NegInf = True"
| "not_positive _ = False"

text \<open>
  A concrete manager for the examples: the endpoint \<open>wss://x/y\<close>, a given
  configuration, and a runtime in which strings, functions and objects convert to NaN.
\<close>

definition example_rt :: "jsval \<Rightarrow> jsnum" where
  "example_rt v = NaN"

definition example_manager :: "jsval \<Rightarrow> rws" where
  "example_manager config = projr (new_ReconnectingWebSocket (JStr ''wss://x/y'') config)"






text \<open>
  A scenario: a retry interval of 10 ms and a budget of 25 ms; the first transport
  opens and is lost, the first tick replaces it, the replacement opens, and the second
  tick finds it open.
\<close>

definition budget_10_25 :: jsval where
  "budget_10_25 = JObj 1 [(''autoReconnectMS'', JNum (Fin 10)), (''stopReconnectingAfter'', JNum (Fin 25))]"

definition reconnected_once :: "event list" where
  "reconnected_once = [SocketOpens 0, SocketCloses 0, TimerFires 1, SocketOpens 1, TimerFires 1]"

text \<open>
  Two scenarios with the default configuration. In the first the application calls
  \<open>addEventListener('message')\<close>, without a handler; the first transport opens and is
  lost, the first tick replaces it and the replacement opens. In the second the
  application subscribes \<open>f1\<close> and then \<open>f2\<close> to messages, the transport
  opens and is lost, the first tick replaces it, the application subscribes \<open>f2\<close>
  again, the replacement opens and the second tick finds it open.
\<close>

definition rejected_subscription :: "event list" where
  "rejected_subscription =
     [AddEventListener [JStr ''message''], SocketOpens 0, SocketCloses 0, TimerFires 1,
      SocketOpens 1]"

definition readded_while_retrying :: "event list" where
  "readded_while_retrying =
     [AddEventListener [JStr ''message'', JFun (AppFn 1)],
      AddEventListener [JStr ''message'', JFun (AppFn 2)],
      SocketOpens 0, SocketCloses 0, TimerFires 1,
      AddEventListener [JStr ''message'', JFun (AppFn 2)],
      SocketOpens 1, TimerFires 1]"

section \<open>Basic facts\<close>

lemmas rws_defs = on_instance_def call_instance_def set_timer_def clearInterval_def
  addEventListener_def removeEventListener_def close_def send_def addCloseEventListener_def
  resetReconnectAttempts_def stopReconnecting_def initWebSocketInstance_def
  startReconnecting_def giveUp_def handleWebSocketCloseEvent_def set_readyState_def

lemmas ws_defs = attach_def detach_def add_listener_def remove_listener_def accepts_def
  ws_close_def ws_send_def new_WebSocket_def

lemmas scenario_defs = budget_10_25_def reconnected_once_def rejected_subscription_def
  readded_while_retrying_def

lemmas eval_defs = new_ReconnectingWebSocket_def run_def rws_defs ws_defs reconnectTick_def
  attachPreviousEventListeners_def dispatch_close_def Let_def gt_zero_def parseTimeToMS_def
  or_default_def closeArgs_def listener_of_def arg_at_def hourInMS_def convertHoursToMS_def
  dayInMS_def convertDaysToMS_def example_manager_def example_rt_def

lemma strict_eq_JStr: "strict_eq v (JStr s) = (v = JStr s)"
  by (cases v) auto

subsection \<open>Transports\<close>

lemma accepts_closeArgs [simp]: "accepts closeArgs"
  by (simp add: accepts_def closeArgs_def arg_at_def)

lemma try_attach: "try_call (attach args) s = (if accepts args then add_listener args s else s)"
  by (simp add: try_call_def attach_def)

lemma try_detach: "try_call (detach args) s = (if accepts args then remove_listener args s else s)"
  by (simp add: try_call_def detach_def)

lemma try_attach_closeArgs [simp]: "try_call (attach closeArgs) s = add_listener closeArgs s"
  by (simp add: try_attach)

lemma try_detach_closeArgs [simp]: "try_call (detach closeArgs) s = remove_listener closeArgs s"
  by (simp add: try_detach)

lemma state_of_call_instance: "state_of (call_instance f w) = on_instance (try_call f) w"
  by (simp add: call_instance_def on_instance_def try_call_def split: sum.split)

lemma call_instance_Normal:
  "call_instance f w = Normal w' \<longleftrightarrow>
     (\<exists>s. f (sockets w (instance_ref w)) = Inr s \<and> w' = on_instance (\<lambda>_. s) w)"
  by (auto simp: call_instance_def on_instance_def split: sum.split)

lemma call_attach:
  "call_instance (attach args) w =
     (if accepts args then Normal (on_instance (add_listener args) w) else Throw TypeError w)"
  by (simp add: call_instance_def on_instance_def attach_def)

lemma call_detach:
  "call_instance (detach args) w =
     (if accepts args then Normal (on_instance (remove_listener args) w) else Throw TypeError w)"
  by (simp add: call_instance_def on_instance_def detach_def)

lemma attach_all_Nil [simp]: "attach_all [] s = s"
  by (simp add: attach_all_def)

lemma attach_all_Cons [simp]: "attach_all (e # es) s = attach_all es (add_listener e s)"
  by (simp add: attach_all_def)

lemma attach_all_append: "attach_all (es @ fs) s = attach_all fs (attach_all es s)"
  by (simp add: attach_all_def)

lemma on_instance_attach_all:
  "on_instance (attach_all es) (on_instance (add_listener e) w) =
     on_instance (\<lambda>s. attach_all es (add_listener e s)) w"
  by (simp add: on_instance_def)

lemma attach_all_Cons_fun: "attach_all (e # es) = (\<lambda>s. attach_all es (add_listener e s))"
  by (rule ext) simp

lemma on_instance_id [simp]: "on_instance (\<lambda>s. s) w = w"
  by (simp add: on_instance_def)

lemma forEach_attach_eq:
  "forEach_attach es w =
     (if list_all accepts es then Normal (on_instance (attach_all es) w)
      else Throw TypeError (on_instance (attach_all (takeWhile accepts es)) w))"
proof (induction es arbitrary: w)
  case Nil
  have "on_instance (attach_all []) w = w" by (simp add: on_instance_def)
  then show ?case by simp
next
  case (Cons e es)
  show ?case
  proof (cases "accepts e")
    case True
    then show ?thesis by (simp add: call_attach Cons on_instance_attach_all attach_all_Cons_fun)
  next
    case False
    have "on_instance (attach_all []) w = w" by (simp add: on_instance_def)
    with False show ?thesis by (simp add: call_attach)
  qed
qed

lemma attachPrevious_eq:
  "attachPreviousEventListeners w =
     (if list_all accepts (eventListeners w)
      then Normal (on_instance (attach_all (eventListeners w)) w)
      else Throw TypeError (on_instance (attach_all (takeWhile accepts (eventListeners w))) w))"
  by (simp add: attachPreviousEventListeners_def forEach_attach_eq)

lemma add_listener_fields [simp]:
  "readyState (add_listener args s) = readyState s"
  "ws_url (add_listener args s) = ws_url s"
  "calls (add_listener args s) = calls s @ [CallAddEventListener args]"
  by (simp_all add: add_listener_def)

lemma attach_all_fields [simp]:
  "readyState (attach_all es s) = readyState s"
  "ws_url (attach_all es s) = ws_url s"
  "calls (attach_all es s) = calls s @ map CallAddEventListener es"
  by (induction es arbitrary: s) simp_all

lemma attach_fields [simp]:
  "readyState (try_call (attach args) s) = readyState s"
  "ws_url (try_call (attach args) s) = ws_url s"
  "calls (try_call (attach args) s) =
     (if accepts args then calls s @ [CallAddEventListener args] else calls s)"
  by (simp_all add: try_attach)

lemma add_listener_set:
  "set (listeners (add_listener args s)) =
     (if arg_at args 1 \<noteq> JNull \<and> arg_at args 1 \<noteq> JUndefined
      then insert (listener_of args) (set (listeners s)) else set (listeners s))"
  by (auto simp: add_listener_def)

lemma attach_set:
  "set (listeners (try_call (attach args) s)) =
     (if accepts args \<and> arg_at args 1 \<noteq> JNull \<and> arg_at args 1 \<noteq> JUndefined
      then insert (listener_of args) (set (listeners s)) else set (listeners s))"
  by (simp add: try_attach add_listener_set)

lemma add_listener_distinct [simp]:
  "distinct (listeners (add_listener args s)) = distinct (listeners s)"
  by (auto simp: add_listener_def)

lemma attach_distinct [simp]:
  "distinct (listeners (try_call (attach args) s)) = distinct (listeners s)"
  by (simp add: try_attach)


lemma attach_all_set:
  "set (listeners (attach_all es s)) =
     set (listeners s) \<union> listener_of ` {e \<in> set es. arg_at e 1 \<noteq> JNull \<and> arg_at e 1 \<noteq> JUndefined}"
  by (induction es arbitrary: s) (auto simp: add_listener_set)

lemma attach_all_distinct [simp]: "distinct (listeners (attach_all es s)) = distinct (listeners s)"
  by (induction es arbitrary: s) auto

lemma remove_listener_fields [simp]:
  "readyState (remove_listener args s) = readyState s"
  "ws_url (remove_listener args s) = ws_url s"
  "calls (remove_listener args s) = calls s @ [CallRemoveEventListener args]"
  by (simp_all add: remove_listener_def)

lemma detach_fields [simp]:
  "readyState (try_call (detach args) s) = readyState s"
  "ws_url (try_call (detach args) s) = ws_url s"
  "calls (try_call (detach args) s) =
     (if accepts args then calls s @ [CallRemoveEventListener args] else calls s)"
  by (simp_all add: try_detach)

lemma remove_listener_set:
  "set (listeners (remove_listener args s)) = set (listeners s) - {listener_of args}"
  by (auto simp: remove_listener_def)

lemma detach_set:
  "set (listeners (try_call (detach args) s)) =
     (if accepts args then set (listeners s) - {listener_of args} else set (listeners s))"
  by (simp add: try_detach remove_listener_set)

lemma remove_listener_distinct [simp]:
  "distinct (listeners s) \<Longrightarrow> distinct (listeners (remove_listener args s))"
  by (auto simp: remove_listener_def)

lemma detach_distinct [simp]:
  "distinct (listeners s) \<Longrightarrow> distinct (listeners (try_call (detach args) s))"
  by (simp add: try_detach)

lemma ws_close_fields [simp]:
  "listeners (ws_close s) = listeners s"
  "ws_url (ws_close s) = ws_url s"
  "calls (ws_close s) = calls s @ [CallClose]"
  "readyState (ws_close s) = CLOSED \<longleftrightarrow> readyState s = CLOSED"
  by (simp_all add: ws_close_def)

lemma ws_send_fields [simp]:
  "listeners (try_call (ws_send args) s) = listeners s"
  "ws_url (try_call (ws_send args) s) = ws_url s"
  "readyState (try_call (ws_send args) s) = readyState s"
  by (simp_all add: ws_send_def try_call_def)

subsection \<open>The disconnect observer\<close>

lemma arg_at_safe:
  assumes "JFun HandleWebSocketCloseEvent \<notin> set args"
  shows "arg_at args i \<noteq> JFun HandleWebSocketCloseEvent"
proof (cases "i < length args")
  case True
  have "args ! i \<in> set args" using True by (rule nth_mem)
  with assms have "args ! i \<noteq> JFun HandleWebSocketCloseEvent" by auto
  with True show ?thesis by (simp add: arg_at_def)
next
  case False
  then show ?thesis by (simp add: arg_at_def)
qed

lemma arg_at_closeArgs [simp]:
  "arg_at closeArgs 0 = JStr ''close''"
  "arg_at closeArgs (Suc 0) = JFun HandleWebSocketCloseEvent"
  "arg_at closeArgs (Suc (Suc n)) = JUndefined"
  by (simp_all add: closeArgs_def arg_at_def)

lemma observer_eq: "observer = (JStr ''close'', JFun HandleWebSocketCloseEvent, False)"
  by (simp add: observer_def listener_of_def numeral_2_eq_2)

lemma own_observer [simp]: "own observer"
  by (simp add: own_def observer_eq)

lemma H_in_closeArgs [simp]: "JFun HandleWebSocketCloseEvent \<in> set closeArgs"
  by (simp add: closeArgs_def)

lemma safe_not_closeArgs:
  "JFun HandleWebSocketCloseEvent \<notin> set args \<Longrightarrow> args \<noteq> closeArgs"
  "JFun HandleWebSocketCloseEvent \<notin> set args \<Longrightarrow> closeArgs \<noteq> args"
  by auto

lemma own_safe: "JFun HandleWebSocketCloseEvent \<notin> set args \<Longrightarrow> \<not> own (listener_of args)"
  using arg_at_safe [of args 1] by (simp add: own_def listener_of_def)

lemma safe_not_observer:
  assumes "JFun HandleWebSocketCloseEvent \<notin> set args"
  shows "listener_of args \<noteq> observer" "observer \<noteq> listener_of args"
  using own_safe [OF assms] own_observer by auto

lemma own_listener_of: "own (listener_of e) \<Longrightarrow> JFun HandleWebSocketCloseEvent \<in> set e"
  using arg_at_safe [of e 1] by (auto simp: own_def listener_of_def)

lemma every_from_refl_closeArgs [simp]: "every_from 0 closeArgs closeArgs"
  by (simp add: closeArgs_def arg_at_def)

subsection \<open>What each operation does to the state\<close>

lemma addEventListener_eq:
  "state_of (addEventListener args w) =
     w\<lparr>eventListeners := eventListeners w @ [args],
       sockets := (sockets w)(instance_ref w := try_call (attach args) (sockets w (instance_ref w)))\<rparr>"
  by (simp add: addEventListener_def state_of_call_instance on_instance_def)

lemma addCloseEventListener_eq:
  "addCloseEventListener w =
     Normal (w\<lparr>eventListeners := eventListeners w @ [closeArgs],
       sockets := (sockets w)(instance_ref w := add_listener closeArgs (sockets w (instance_ref w)))\<rparr>)"
  by (simp add: addCloseEventListener_def addEventListener_def call_attach on_instance_def)

lemma removeEventListener_eq:
  "state_of (removeEventListener args w) =
     w\<lparr>eventListeners := filter (\<lambda>e. \<not> every_from 0 e args) (eventListeners w),
       sockets := (sockets w)(instance_ref w := try_call (detach args) (sockets w (instance_ref w)))\<rparr>"
  by (simp add: removeEventListener_def state_of_call_instance on_instance_def)

lemma removeEventListener_closeArgs:
  "removeEventListener closeArgs w =
     Normal (w\<lparr>eventListeners := filter (\<lambda>e. \<not> every_from 0 e closeArgs) (eventListeners w),
       sockets := (sockets w)(instance_ref w := remove_listener closeArgs (sockets w (instance_ref w)))\<rparr>)"
  by (simp add: removeEventListener_def call_detach on_instance_def)

lemma close_eq:
  "close w = w\<lparr>sockets := (sockets w)(instance_ref w := ws_close (sockets w (instance_ref w)))\<rparr>"
  by (simp add: close_def on_instance_def)

lemma send_eq:
  "state_of (send args w) =
     w\<lparr>sockets := (sockets w)(instance_ref w := try_call (ws_send args) (sockets w (instance_ref w)))\<rparr>"
  by (simp add: send_def state_of_call_instance on_instance_def)

lemma set_readyState_fields [simp]:
  "instance_ref (set_readyState sid r w) = instance_ref w"
  "reconnectInterval (set_readyState sid r w) = reconnectInterval w"
  "listeners (sockets (set_readyState sid r w) x) = listeners (sockets w x)"
  "readyState (sockets (set_readyState sid r w) sid) = r"
  "timers (set_readyState sid r w) = timers w"
  "socket_count (set_readyState sid r w) = socket_count w"
  by (simp_all add: set_readyState_def)

lemma reconnectTick_connecting:
  "readyState (sockets w (instance_ref w)) = CONNECTING \<Longrightarrow>
   reconnectTick w =
     Normal (w\<lparr>reconnectAttempts := Suc (reconnectAttempts w),
       console := console w @ [Suc (reconnectAttempts w)]\<rparr>)"
  by (simp add: reconnectTick_def Let_def)

lemma reconnectTick_open:
  "readyState (sockets w (instance_ref w)) = OPEN \<Longrightarrow> list_all accepts (eventListeners w) \<Longrightarrow>
   reconnectTick w =
     Normal (w\<lparr>reconnectAttempts := 0,
       console := console w @ [Suc (reconnectAttempts w)],
       timers := (case reconnectInterval w of None \<Rightarrow> timers w | Some i \<Rightarrow> (timers w)(i := None)),
       reconnectInterval := None,
       eventListeners := eventListeners w @ [closeArgs],
       sockets := (sockets w)(instance_ref w :=
          add_listener closeArgs (attach_all (eventListeners w) (sockets w (instance_ref w))))\<rparr>)"
  by (simp add: reconnectTick_def Let_def attachPrevious_eq addCloseEventListener_eq
      on_instance_def resetReconnectAttempts_def stopReconnecting_def clearInterval_def
      split: option.split)

lemma reconnectTick_open_throws:
  "readyState (sockets w (instance_ref w)) = OPEN \<Longrightarrow> \<not> list_all accepts (eventListeners w) \<Longrightarrow>
   reconnectTick w =
     Throw TypeError (w\<lparr>reconnectAttempts := 0,
       console := console w @ [Suc (reconnectAttempts w)],
       timers := (case reconnectInterval w of None \<Rightarrow> timers w | Some i \<Rightarrow> (timers w)(i := None)),
       reconnectInterval := None,
       sockets := (sockets w)(instance_ref w :=
          attach_all (takeWhile accepts (eventListeners w)) (sockets w (instance_ref w)))\<rparr>)"
  by (simp add: reconnectTick_def Let_def attachPrevious_eq
      on_instance_def resetReconnectAttempts_def stopReconnecting_def clearInterval_def
      split: option.split)

lemma reconnectTick_open_active:
  "readyState (sockets w (instance_ref w)) = OPEN \<Longrightarrow> reconnectInterval w = Some j \<Longrightarrow>
   state_of (reconnectTick w) =
     (if list_all accepts (eventListeners w)
      then w\<lparr>reconnectAttempts := 0,
             console := console w @ [Suc (reconnectAttempts w)],
             timers := (timers w)(j := None),
             reconnectInterval := None,
             eventListeners := eventListeners w @ [closeArgs],
             sockets := (sockets w)(instance_ref w :=
                add_listener closeArgs (attach_all (eventListeners w) (sockets w (instance_ref w))))\<rparr>
      else w\<lparr>reconnectAttempts := 0,
             console := console w @ [Suc (reconnectAttempts w)],
             timers := (timers w)(j := None),
             reconnectInterval := None,
             sockets := (sockets w)(instance_ref w :=
                attach_all (takeWhile accepts (eventListeners w)) (sockets w (instance_ref w)))\<rparr>)"
  by (simp add: reconnectTick_open reconnectTick_open_throws)

lemma reconnectTick_closed:
  "readyState (sockets w (instance_ref w)) = CLOSED \<or> readyState (sockets w (instance_ref w)) = CLOSING \<Longrightarrow>
   reconnectInterval w \<noteq> None \<Longrightarrow>
   reconnectTick w =
     Normal (w\<lparr>reconnectAttempts := Suc (reconnectAttempts w),
       console := console w @ [Suc (reconnectAttempts w)],
       eventListeners := filter (\<lambda>e. \<not> every_from 0 e closeArgs) (eventListeners w),
       sockets := (sockets w)
          (instance_ref w := remove_listener closeArgs (sockets w (instance_ref w)),
           socket_count w := new_WebSocket (url w)),
       socket_count := Suc (socket_count w),
       instance_ref := socket_count w\<rparr>)"
  by (auto simp add: reconnectTick_def Let_def removeEventListener_closeArgs initWebSocketInstance_def)

lemma giveUp_active:
  "reconnectInterval w = Some i \<Longrightarrow>
   giveUp w = w\<lparr>timers := (timers w)(i := None), reconnectInterval := None, reconnectAttempts := 0\<rparr>"
  by (simp add: giveUp_def rws_defs)

lemma giveUp_idle: "reconnectInterval w = None \<Longrightarrow> giveUp w = w"
  by (simp add: giveUp_def)

lemma handleWebSocketCloseEvent_eq:
  "handleWebSocketCloseEvent rt w =
     (if gt_zero rt (stopReconnectingAfterMS w)
      then w\<lparr>timers := (timers w)
                 (next_timer w \<mapsto> \<lparr>repeating = True, callback = ReconnectTick, delay = autoReconnectMS w\<rparr>,
                  Suc (next_timer w) \<mapsto> \<lparr>repeating = False, callback = GiveUp, delay = stopReconnectingAfterMS w\<rparr>),
             next_timer := Suc (Suc (next_timer w)),
             reconnectInterval := Some (next_timer w)\<rparr>
      else w\<lparr>timers := (timers w)
                 (next_timer w \<mapsto> \<lparr>repeating = True, callback = ReconnectTick, delay = autoReconnectMS w\<rparr>),
             next_timer := Suc (next_timer w),
             reconnectInterval := Some (next_timer w)\<rparr>)"
  by (simp add: handleWebSocketCloseEvent_def Let_def rws_defs)

lemma listeners_handle [simp]:
  "sockets (handleWebSocketCloseEvent rt w) = sockets w"
  by (simp add: handleWebSocketCloseEvent_eq)

lemma timer_callback_cases: "c \<noteq> ReconnectTick \<Longrightarrow> c = GiveUp"
  by (cases c) auto

lemma new_ReconnectingWebSocket_eq:
  "new_ReconnectingWebSocket u config = Inr w \<Longrightarrow>
   w = \<lparr>autoReconnectMS = or_default (get_prop config ''autoReconnectMS'') (JNum (Fin 3000)),
         stopReconnectingAfterMS =
           parseTimeToMS (or_default (get_prop config ''stopReconnectingAfter'') (JNum (Fin hourInMS))),
         url = u,
         reconnectAttempts = 0,
         eventListeners = [closeArgs],
         instance_ref = 0,
         reconnectInterval = None,
         sockets = (\<lambda>_. new_WebSocket JUndefined)(0 := add_listener closeArgs (new_WebSocket u)),
         socket_count = Suc 0,
         timers = Map.empty,
         next_timer = 1,
         console = []\<rparr>"
  by (auto simp: new_ReconnectingWebSocket_def initWebSocketInstance_def Let_def
      addCloseEventListener_eq split: if_splits)

lemma timers_new: "new_ReconnectingWebSocket u config = Inr w0 \<Longrightarrow> timers w0 = Map.empty"
  by (drule new_ReconnectingWebSocket_eq) simp

subsection \<open>Delivery of the close event\<close>

lemma foldl_cond:
  "foldl (\<lambda>w l. if P l then f w else w) w ls = (f ^^ length (filter P ls)) w"
  by (induction ls arbitrary: w) (simp_all add: funpow_swap1)

lemma filter_single:
  assumes "distinct ls" "\<forall>l \<in> set ls. P l \<longrightarrow> l = a" "P a"
  shows "length (filter P ls) = (if a \<in> set ls then 1 else 0)"
proof -
  have "filter P ls = filter (\<lambda>l. l = a) ls"
  proof (rule filter_cong [OF refl])
    fix x assume "x \<in> set ls"
    with assms(2,3) show "P x = (x = a)" by blast
  qed
  then have "length (filter P ls) = card ({x. x = a} \<inter> set ls)"
    using assms(1) by (simp add: distinct_length_filter)
  also have "{x. x = a} \<inter> set ls = (if a \<in> set ls then {a} else {})" by auto
  finally show ?thesis by simp
qed

lemma funpow_invariant:
  "(\<And>x. P x \<Longrightarrow> P (f x)) \<Longrightarrow> P x \<Longrightarrow> P ((f ^^ n) x)"
  by (induction n) simp_all

lemma dispatch_close_funpow:
  "\<exists>n. dispatch_close rt sid w = (handleWebSocketCloseEvent rt ^^ n) w"
  unfolding dispatch_close_def foldl_cond by blast

section \<open>The configuration is fixed at construction\<close>

lemma config_handle [simp]: "config_of (handleWebSocketCloseEvent rt w) = config_of w"
  by (simp add: config_of_def handleWebSocketCloseEvent_eq)

lemma config_dispatch [simp]: "config_of (dispatch_close rt sid w) = config_of w"
proof -
  obtain n where n: "dispatch_close rt sid w = (handleWebSocketCloseEvent rt ^^ n) w"
    using dispatch_close_funpow by blast
  have "config_of ((handleWebSocketCloseEvent rt ^^ n) w) = config_of w"
    by (rule funpow_invariant [where P = "\<lambda>x. config_of x = config_of w"]) simp_all
  with n show ?thesis by simp
qed

lemma config_tick [simp]: "config_of (state_of (reconnectTick w)) = config_of w"
  by (simp add: config_of_def reconnectTick_def Let_def attachPrevious_eq
      addCloseEventListener_eq removeEventListener_closeArgs initWebSocketInstance_def
      on_instance_def resetReconnectAttempts_def stopReconnecting_def clearInterval_def
      split: option.split)

lemma config_giveUp [simp]: "config_of (giveUp w) = config_of w"
  by (simp add: config_of_def rws_defs split: option.split)

lemma config_step [simp]: "config_of (step rt w ev) = config_of w"
proof (cases ev)
  case (SocketCloses sid)
  have "config_of (dispatch_close rt sid (set_readyState sid CLOSED w)) = config_of w"
    by (simp add: config_dispatch) (simp add: config_of_def set_readyState_def)
  then show ?thesis using SocketCloses by simp
next
  case (TimerFires i)
  show ?thesis
  proof (cases "timers w i")
    case None
    then show ?thesis using TimerFires by simp
  next
    case (Some t)
    have "config_of (w\<lparr>timers := (timers w)(i := None)\<rparr>) = config_of w" by (simp add: config_of_def)
    then show ?thesis using TimerFires Some by (cases "callback t") (simp_all add: Let_def)
  qed
qed (simp_all add: config_of_def addEventListener_eq removeEventListener_eq send_eq close_eq
      set_readyState_def)

lemma config_run [simp]: "config_of (run rt w evs) = config_of w"
  unfolding run_def by (induction evs arbitrary: w) simp_all

lemma config_fields:
  "autoReconnectMS (run rt w evs) = autoReconnectMS w"
  "stopReconnectingAfterMS (run rt w evs) = stopReconnectingAfterMS w"
  "url (run rt w evs) = url w"
  using config_run [of rt w evs] by (simp_all add: config_of_def)

section \<open>Consistency of the reachable states\<close>

lemmas inv_defs = inv_inst_def inv_distinct_def inv_own_def inv_obs_def inv_timers_def inv_reg_def inv_cycle_def

lemma consistentD:
  assumes "consistent w"
  shows "inv_inst w" "inv_distinct w" "inv_own w" "inv_obs w" "inv_timers w" "inv_reg w" "inv_cycle w"
  using assms by (simp_all add: consistent_def)

lemma dispatch_close_inv:
  assumes "inv_distinct w" "inv_own w"
  shows "dispatch_close rt sid w =
           (if observer \<in> set (listeners (sockets w sid)) then handleWebSocketCloseEvent rt w else w)"
proof -
  let ?ls = "listeners (sockets w sid)"
  have d: "distinct ?ls" using assms(1) by (simp add: inv_distinct_def)
  have o: "\<forall>l \<in> set ?ls. is_close_handler l \<longrightarrow> l = observer"
  proof (intro ballI impI)
    fix l assume l: "l \<in> set ?ls" "is_close_handler l"
    then have "own l" by (simp add: is_close_handler_def own_def)
    with assms(2) l(1) show "l = observer" unfolding inv_own_def by blast
  qed
  have h: "is_close_handler observer" by (simp add: is_close_handler_def observer_eq)
  have "dispatch_close rt sid w = (handleWebSocketCloseEvent rt ^^ length (filter is_close_handler ?ls)) w"
    unfolding dispatch_close_def is_close_handler_def by (rule foldl_cond)
  also have "length (filter is_close_handler ?ls) = (if observer \<in> set ?ls then 1 else 0)"
    using d o h by (rule filter_single)
  finally show ?thesis by simp
qed

lemma consistent_addEventListener:
  assumes "consistent w" "JFun HandleWebSocketCloseEvent \<notin> set args"
  shows "consistent (state_of (addEventListener args w))"
proof -
  note i = consistentD [OF assms(1)]
  note s = own_safe [OF assms(2)] safe_not_observer [OF assms(2)] safe_not_closeArgs [OF assms(2)] assms(2)
  let ?w = "state_of (addEventListener args w)"
  have "inv_inst ?w" using i(1) unfolding inv_defs by (simp (no_asm) add: addEventListener_eq; blast)
  moreover have "inv_distinct ?w" using i(2) unfolding inv_defs by (simp (no_asm) add: addEventListener_eq; blast)
  moreover have "inv_own ?w" using i(3) s unfolding inv_defs by (simp (no_asm) add: addEventListener_eq attach_set; blast)
  moreover have "inv_obs ?w" using i(4) s unfolding inv_defs by (simp (no_asm) add: addEventListener_eq attach_set; blast)
  moreover have "inv_timers ?w" using i(5) unfolding inv_defs by (simp (no_asm) add: addEventListener_eq; blast)
  moreover have "inv_reg ?w" using i(6) s unfolding inv_defs by (simp (no_asm) add: addEventListener_eq; blast)
  moreover have "inv_cycle ?w" using i(7) s unfolding inv_defs by (simp (no_asm) add: addEventListener_eq; blast)
  ultimately show ?thesis by (simp add: consistent_def)
qed

lemma consistent_removeEventListener:
  assumes "consistent w"
  shows "consistent (state_of (removeEventListener args w))"
proof -
  note i = consistentD [OF assms(1)]
  let ?w = "state_of (removeEventListener args w)"
  have "inv_inst ?w" using i(1) unfolding inv_defs by (simp (no_asm) add: removeEventListener_eq; blast)
  moreover have "inv_distinct ?w" using i(2) by (simp add: inv_distinct_def removeEventListener_eq)
  moreover have "inv_own ?w" using i(3) unfolding inv_defs by (simp (no_asm) add: removeEventListener_eq detach_set; blast)
  moreover have "inv_obs ?w" using i(4) unfolding inv_defs by (simp (no_asm) add: removeEventListener_eq detach_set; blast)
  moreover have "inv_timers ?w" using i(5) unfolding inv_defs by (simp (no_asm) add: removeEventListener_eq; blast)
  moreover have "inv_reg ?w" using i(6) unfolding inv_defs by (simp (no_asm) add: removeEventListener_eq; blast)
  moreover have "inv_cycle ?w" using i(7) unfolding inv_defs by (simp (no_asm) add: removeEventListener_eq; blast)
  ultimately show ?thesis by (simp add: consistent_def)
qed

lemma consistent_close:
  assumes "consistent w"
  shows "consistent (close w)"
proof -
  note i = consistentD [OF assms(1)]
  let ?w = "close w"
  have "inv_inst ?w" using i(1) unfolding inv_defs by (simp (no_asm) add: close_eq; blast)
  moreover have "inv_distinct ?w" using i(2) unfolding inv_defs by (simp (no_asm) add: close_eq; blast)
  moreover have "inv_own ?w" using i(3) unfolding inv_defs by (simp (no_asm) add: close_eq; blast)
  moreover have "inv_obs ?w" using i(4) unfolding inv_defs by (simp (no_asm) add: close_eq; blast)
  moreover have "inv_timers ?w" using i(5) unfolding inv_defs by (simp (no_asm) add: close_eq; blast)
  moreover have "inv_reg ?w" using i(6) unfolding inv_defs by (simp (no_asm) add: close_eq; blast)
  moreover have "inv_cycle ?w" using i(7) unfolding inv_defs by (simp (no_asm) add: close_eq; blast)
  ultimately show ?thesis by (simp add: consistent_def)
qed

lemma consistent_send:
  assumes "consistent w"
  shows "consistent (state_of (send args w))"
proof -
  note i = consistentD [OF assms(1)]
  let ?w = "state_of (send args w)"
  have "inv_inst ?w" using i(1) unfolding inv_defs by (simp (no_asm) add: send_eq; blast)
  moreover have "inv_distinct ?w" using i(2) unfolding inv_defs by (simp (no_asm) add: send_eq; blast)
  moreover have "inv_own ?w" using i(3) unfolding inv_defs by (simp (no_asm) add: send_eq; blast)
  moreover have "inv_obs ?w" using i(4) unfolding inv_defs by (simp (no_asm) add: send_eq; blast)
  moreover have "inv_timers ?w" using i(5) unfolding inv_defs by (simp (no_asm) add: send_eq; blast)
  moreover have "inv_reg ?w" using i(6) unfolding inv_defs by (simp (no_asm) add: send_eq; blast)
  moreover have "inv_cycle ?w" using i(7) unfolding inv_defs by (simp (no_asm) add: send_eq; blast)
  ultimately show ?thesis by (simp add: consistent_def)
qed

lemma consistent_set_readyState:
  assumes "consistent w" "r \<noteq> CLOSED \<longrightarrow> readyState (sockets w sid) \<noteq> CLOSED"
  shows "consistent (set_readyState sid r w)"
proof -
  note i = consistentD [OF assms(1)]
  note a = assms(2)
  let ?w = "set_readyState sid r w"
  have "inv_inst ?w" using i(1) unfolding inv_defs by (simp (no_asm) add: set_readyState_def; blast)
  moreover have "inv_distinct ?w" using i(2) unfolding inv_defs by (simp (no_asm) add: set_readyState_def; blast)
  moreover have "inv_own ?w" using i(3) unfolding inv_defs by (simp (no_asm) add: set_readyState_def; blast)
  moreover have "inv_obs ?w" using i(4) a unfolding inv_defs by (simp (no_asm) add: set_readyState_def; blast)
  moreover have "inv_timers ?w" using i(5) unfolding inv_defs by (simp (no_asm) add: set_readyState_def; blast)
  moreover have "inv_reg ?w" using i(6) unfolding inv_defs by (simp (no_asm) add: set_readyState_def; blast)
  moreover have "inv_cycle ?w" using i(7) a unfolding inv_defs by (simp (no_asm) add: set_readyState_def; blast)
  ultimately show ?thesis by (simp add: consistent_def)
qed

lemma consistent_handleWebSocketCloseEvent:
  assumes "consistent w" "reconnectInterval w = None" "readyState (sockets w (instance_ref w)) = CLOSED"
  shows "consistent (handleWebSocketCloseEvent rt w)"
proof -
  note i = consistentD [OF assms(1)]
  note a = assms(2,3)
  let ?w = "handleWebSocketCloseEvent rt w"
  have "inv_inst ?w" using i(1) unfolding inv_defs by (simp (no_asm) add: handleWebSocketCloseEvent_eq; blast)
  moreover have "inv_distinct ?w" using i(2) unfolding inv_defs by (simp (no_asm) add: handleWebSocketCloseEvent_eq; blast)
  moreover have "inv_own ?w" using i(3) unfolding inv_defs by (simp (no_asm) add: handleWebSocketCloseEvent_eq; blast)
  moreover have "inv_obs ?w" using i(4) a unfolding inv_defs by (simp (no_asm) add: handleWebSocketCloseEvent_eq; blast)
  moreover have "inv_timers ?w" using i(5) a unfolding inv_defs
    by (simp (no_asm) add: handleWebSocketCloseEvent_eq; force)
  moreover have "inv_reg ?w" using i(6) unfolding inv_defs by (simp (no_asm) add: handleWebSocketCloseEvent_eq; blast)
  moreover have "inv_cycle ?w" using i(7) a unfolding inv_defs by (simp (no_asm) add: handleWebSocketCloseEvent_eq; blast)
  ultimately show ?thesis by (simp add: consistent_def)
qed

lemma consistent_drop_timer:
  assumes "consistent w"
  shows "consistent (w\<lparr>timers := (timers w)(i := None)\<rparr>)"
proof -
  note i = consistentD [OF assms(1)]
  let ?w = "w\<lparr>timers := (timers w)(i := None)\<rparr>"
  have "inv_inst ?w" using i(1) unfolding inv_defs by (simp (no_asm); blast)
  moreover have "inv_distinct ?w" using i(2) unfolding inv_defs by (simp (no_asm); blast)
  moreover have "inv_own ?w" using i(3) unfolding inv_defs by (simp (no_asm); blast)
  moreover have "inv_obs ?w" using i(4) unfolding inv_defs by (simp (no_asm); blast)
  moreover have "inv_timers ?w" using i(5) unfolding inv_defs by (simp (no_asm); blast)
  moreover have "inv_reg ?w" using i(6) unfolding inv_defs by (simp (no_asm); blast)
  moreover have "inv_cycle ?w" using i(7) unfolding inv_defs by (simp (no_asm); blast)
  ultimately show ?thesis by (simp add: consistent_def)
qed

lemma consistent_giveUp:
  assumes "consistent w"
  shows "consistent (giveUp w)"
proof (cases "reconnectInterval w")
  case None
  then show ?thesis using assms by (simp add: giveUp_idle)
next
  case (Some j)
  note i = consistentD [OF assms(1)]
  note e = giveUp_active [OF Some]
  let ?w = "giveUp w"
  have "inv_inst ?w" using i(1) unfolding inv_defs by (simp (no_asm) add: e; blast)
  moreover have "inv_distinct ?w" using i(2) unfolding inv_defs by (simp (no_asm) add: e; blast)
  moreover have "inv_own ?w" using i(3) unfolding inv_defs by (simp (no_asm) add: e; blast)
  moreover have "inv_obs ?w" using i(4) Some unfolding inv_defs by (simp (no_asm) add: e; blast)
  moreover have "inv_timers ?w" using i(5) Some unfolding inv_defs by (simp (no_asm) add: e; force)
  moreover have "inv_reg ?w" using i(6) unfolding inv_defs by (simp (no_asm) add: e; blast)
  moreover have "inv_cycle ?w" using i(7) unfolding inv_defs by (simp (no_asm) add: e; blast)
  ultimately show ?thesis by (simp add: consistent_def)
qed

lemma consistent_tick_connecting:
  assumes "consistent w" "readyState (sockets w (instance_ref w)) = CONNECTING"
  shows "consistent (state_of (reconnectTick w))"
proof -
  note i = consistentD [OF assms(1)]
  note e = reconnectTick_connecting [OF assms(2)]
  let ?w = "state_of (reconnectTick w)"
  have "inv_inst ?w" using i(1) unfolding inv_defs by (simp (no_asm) add: e; blast)
  moreover have "inv_distinct ?w" using i(2) unfolding inv_defs by (simp (no_asm) add: e; blast)
  moreover have "inv_own ?w" using i(3) unfolding inv_defs by (simp (no_asm) add: e; blast)
  moreover have "inv_obs ?w" using i(4) unfolding inv_defs by (simp (no_asm) add: e; blast)
  moreover have "inv_timers ?w" using i(5) unfolding inv_defs by (simp (no_asm) add: e; blast)
  moreover have "inv_reg ?w" using i(6) unfolding inv_defs by (simp (no_asm) add: e; blast)
  moreover have "inv_cycle ?w" using i(7) unfolding inv_defs by (simp (no_asm) add: e; blast)
  ultimately show ?thesis by (simp add: consistent_def)
qed

lemma consistent_tick_closed:
  assumes "consistent w" "reconnectInterval w \<noteq> None"
    "readyState (sockets w (instance_ref w)) = CLOSED \<or> readyState (sockets w (instance_ref w)) = CLOSING"
  shows "consistent (state_of (reconnectTick w))"
proof -
  note i = consistentD [OF assms(1)]
  note e = reconnectTick_closed [OF assms(3,2)]
  note a = assms(2)
  let ?w = "state_of (reconnectTick w)"
  have "inv_inst ?w" using i(1) unfolding inv_defs by (simp (no_asm) add: e; blast)
  moreover have "inv_distinct ?w" using i(2) by (simp add: inv_distinct_def e new_WebSocket_def)
  moreover have "inv_own ?w" using i(3) unfolding inv_defs
    by (simp (no_asm) add: e remove_listener_set new_WebSocket_def; blast)
  moreover have "inv_obs ?w" using i(4) a unfolding inv_defs
    by (simp (no_asm) add: e remove_listener_set new_WebSocket_def; meson)
  moreover have "inv_timers ?w" using i(5) unfolding inv_defs by (simp (no_asm) add: e; blast)
  moreover have "inv_reg ?w" using i(6) unfolding inv_defs by (simp (no_asm) add: e; blast)
  moreover have "inv_cycle ?w" unfolding inv_defs by (simp (no_asm) add: e)
  ultimately show ?thesis by (simp add: consistent_def)
qed

lemma consistent_tick_open:
  assumes "consistent w" "reconnectInterval w = Some j" "readyState (sockets w (instance_ref w)) = OPEN"
  shows "consistent (state_of (reconnectTick w))"
proof -
  note i = consistentD [OF assms(1)]
  note a = assms(2,3)
  let ?w = "state_of (reconnectTick w)"
  have reg: "\<And>e. e \<in> set (eventListeners w) \<Longrightarrow> own (listener_of e) \<Longrightarrow> listener_of e = observer"
    using i(6) own_listener_of unfolding inv_reg_def observer_def by blast
  show ?thesis
  proof (cases "list_all accepts (eventListeners w)")
    case True
    have e: "?w = w\<lparr>reconnectAttempts := 0,
             console := console w @ [Suc (reconnectAttempts w)],
             timers := (timers w)(j := None),
             reconnectInterval := None,
             eventListeners := eventListeners w @ [closeArgs],
             sockets := (sockets w)(instance_ref w :=
                add_listener closeArgs (attach_all (eventListeners w) (sockets w (instance_ref w))))\<rparr>"
      using reconnectTick_open_active [OF assms(3,2)] True by simp
    have "inv_inst ?w" using i(1) unfolding inv_defs by (simp (no_asm) add: e; blast)
    moreover have "inv_distinct ?w" using i(2) by (simp add: inv_distinct_def e)
    moreover have "inv_own ?w" using i(3) reg unfolding inv_defs
      by (simp (no_asm) add: e add_listener_set attach_all_set observer_def [symmetric]; blast)
    moreover have "inv_obs ?w" using i(4) a unfolding inv_defs
      by (simp (no_asm) add: e add_listener_set attach_all_set observer_def [symmetric]; force)
    moreover have "inv_timers ?w" using i(5) a unfolding inv_defs by (simp (no_asm) add: e; force)
    moreover have "inv_reg ?w" using i(6) unfolding inv_defs by (simp (no_asm) add: e; blast)
    moreover have "inv_cycle ?w" unfolding inv_defs by (simp (no_asm) add: e)
    ultimately show ?thesis by (simp add: consistent_def)
  next
    case False
    have e: "?w = w\<lparr>reconnectAttempts := 0,
             console := console w @ [Suc (reconnectAttempts w)],
             timers := (timers w)(j := None),
             reconnectInterval := None,
             sockets := (sockets w)(instance_ref w :=
                attach_all (takeWhile accepts (eventListeners w)) (sockets w (instance_ref w)))\<rparr>"
      using reconnectTick_open_active [OF assms(3,2)] False by simp
    have nc: "closeArgs \<notin> set (eventListeners w)"
      using i(7) a unfolding inv_cycle_def by simp
    have no: "\<not> own (listener_of e)" if "e \<in> set (takeWhile accepts (eventListeners w))" for e
    proof
      assume "own (listener_of e)"
      then have h: "JFun HandleWebSocketCloseEvent \<in> set e" by (rule own_listener_of)
      have m: "e \<in> set (eventListeners w)" using that by (rule set_takeWhileD [THEN conjunct1])
      from i(6) m h have "e = closeArgs" unfolding inv_reg_def by blast
      with m nc show False by simp
    qed
    have no': "listener_of e \<noteq> observer" if "e \<in> set (takeWhile accepts (eventListeners w))" for e
    proof
      assume "listener_of e = observer"
      then have "own (listener_of e)" by simp
      with no [OF that] show False by simp
    qed
    have "inv_inst ?w" using i(1) unfolding inv_defs by (simp (no_asm) add: e; blast)
    moreover have "inv_distinct ?w" using i(2) by (simp add: inv_distinct_def e)
    moreover have "inv_own ?w" using i(3) no unfolding inv_defs
      by (simp (no_asm) add: e attach_all_set; blast)
    moreover have "inv_obs ?w" using i(4) a no' unfolding inv_defs
      by (simp (no_asm) add: e attach_all_set; force)
    moreover have "inv_timers ?w" using i(5) a unfolding inv_defs by (simp (no_asm) add: e; force)
    moreover have "inv_reg ?w" using i(6) unfolding inv_defs by (simp (no_asm) add: e; blast)
    moreover have "inv_cycle ?w" unfolding inv_defs by (simp (no_asm) add: e)
    ultimately show ?thesis by (simp add: consistent_def)
  qed
qed

lemma consistent_SocketCloses:
  assumes "consistent w"
  shows "consistent (step rt w (SocketCloses sid))"
proof (cases "sid < socket_count w \<and> readyState (sockets w sid) \<noteq> CLOSED")
  case False
  then show ?thesis using assms by auto
next
  case True
  let ?w1 = "set_readyState sid CLOSED w"
  have i1: "consistent ?w1" using assms by (rule consistent_set_readyState) simp
  have d: "dispatch_close rt sid ?w1 =
      (if observer \<in> set (listeners (sockets w sid)) then handleWebSocketCloseEvent rt ?w1 else ?w1)"
    using dispatch_close_inv [OF consistentD(2,3) [OF i1], of rt sid] by simp
  show ?thesis
  proof (cases "observer \<in> set (listeners (sockets w sid))")
    case False
    then show ?thesis using True i1 d by simp
  next
    case h: True
    from consistentD(4) [OF assms] h True have e: "sid = instance_ref w" "reconnectInterval w = None"
      unfolding inv_obs_def by blast+
    have "consistent (handleWebSocketCloseEvent rt ?w1)"
      using i1 by (rule consistent_handleWebSocketCloseEvent) (simp_all add: e)
    then show ?thesis using True h d by simp
  qed
qed

lemma consistent_TimerFires:
  assumes "consistent w"
  shows "consistent (step rt w (TimerFires i))"
proof (cases "timers w i")
  case None
  then show ?thesis using assms by simp
next
  case (Some t)
  from consistentD(5) [OF assms] Some
  have t: "repeating t = (callback t = ReconnectTick)" "repeating t \<Longrightarrow> reconnectInterval w = Some i"
    unfolding inv_timers_def by blast+
  show ?thesis
  proof (cases "repeating t")
    case True
    then have c: "callback t = ReconnectTick" and r: "reconnectInterval w = Some i" using t by auto
    have "consistent (state_of (reconnectTick w))"
    proof (cases "readyState (sockets w (instance_ref w))")
      case CONNECTING
      then show ?thesis using assms by (simp add: consistent_tick_connecting)
    next
      case OPEN
      then show ?thesis using assms r by (simp add: consistent_tick_open)
    next
      case CLOSING
      then show ?thesis using assms r by (simp add: consistent_tick_closed)
    next
      case CLOSED
      then show ?thesis using assms r by (simp add: consistent_tick_closed)
    qed
    then show ?thesis using Some True c by simp
  next
    case False
    then have c: "callback t = GiveUp" using t timer_callback_cases by auto
    have "consistent (giveUp (w\<lparr>timers := (timers w)(i := None)\<rparr>))"
      using assms by (intro consistent_giveUp consistent_drop_timer)
    then show ?thesis using Some False c by simp
  qed
qed

lemma consistent_step:
  assumes "consistent w" "app_safe ev"
  shows "consistent (step rt w ev)"
proof (cases ev)
  case (AddEventListener args)
  then show ?thesis using assms by (simp add: consistent_addEventListener)
next
  case (RemoveEventListener args)
  then show ?thesis using assms by (simp add: consistent_removeEventListener)
next
  case Close
  then show ?thesis using assms by (simp add: consistent_close)
next
  case (Send args)
  then show ?thesis using assms by (simp add: consistent_send)
next
  case (SocketOpens sid)
  then show ?thesis using assms by (simp add: consistent_set_readyState)
next
  case (SocketClosing sid)
  then show ?thesis using assms by (auto intro: consistent_set_readyState)
next
  case (SocketCloses sid)
  then show ?thesis using assms consistent_SocketCloses by simp
next
  case (TimerFires i)
  then show ?thesis using assms consistent_TimerFires by simp
qed

lemma consistent_run:
  assumes "consistent w" "list_all app_safe evs"
  shows "consistent (run rt w evs)"
  using assms unfolding run_def
  by (induction evs arbitrary: w) (simp_all add: consistent_step)

lemma consistent_new:
  assumes "new_ReconnectingWebSocket u config = Inr w"
  shows "consistent w"
  unfolding new_ReconnectingWebSocket_eq [OF assms] consistent_def inv_defs
  by (simp add: add_listener_set new_WebSocket_def observer_def)


lemma observer_only_on_open:
  assumes "consistent w" "app_safe ev"
    and new: "observer \<in> set (listeners (sockets (step rt w ev) sid))" "observer \<notin> set (listeners (sockets w sid))"
  shows "\<exists>i t. ev = TimerFires i \<and> timers w i = Some t \<and> callback t = ReconnectTick
           \<and> readyState (sockets w (instance_ref w)) = OPEN \<and> sid = instance_ref w"
proof (cases ev)
  case (AddEventListener args)
  then have "JFun HandleWebSocketCloseEvent \<notin> set args" using assms(2) by simp
  from safe_not_observer [OF this] new AddEventListener show ?thesis
    by (simp add: addEventListener_eq attach_set split: if_splits)
next
  case (RemoveEventListener args)
  with new show ?thesis by (simp add: removeEventListener_eq detach_set split: if_splits)
next
  case Close
  with new show ?thesis by (simp add: close_eq split: if_splits)
next
  case (Send args)
  with new show ?thesis by (simp add: send_eq split: if_splits)
next
  case (SocketOpens x)
  with new show ?thesis by (simp split: if_splits)
next
  case (SocketClosing x)
  with new show ?thesis by (simp split: if_splits)
next
  case (SocketCloses x)
  show ?thesis
  proof (cases "x < socket_count w \<and> readyState (sockets w x) \<noteq> CLOSED")
    case False
    with new SocketCloses show ?thesis by auto
  next
    case True
    let ?w1 = "set_readyState x CLOSED w"
    have i1: "consistent ?w1" using assms(1) by (rule consistent_set_readyState) simp
    have "sockets (dispatch_close rt x ?w1) = sockets ?w1"
      using dispatch_close_inv [OF consistentD(2,3) [OF i1], of rt x] by simp
    with new SocketCloses True show ?thesis by simp
  qed
next
  case (TimerFires i)
  show ?thesis
  proof (cases "timers w i")
    case None
    with new TimerFires show ?thesis by simp
  next
    case (Some t)
    from consistentD(5) [OF assms(1)] Some
    have t: "repeating t = (callback t = ReconnectTick)" "repeating t \<Longrightarrow> reconnectInterval w = Some i"
      unfolding inv_timers_def by blast+
    show ?thesis
    proof (cases "repeating t")
      case False
      then have c: "callback t = GiveUp" using t timer_callback_cases by auto
      have "sockets (giveUp (w\<lparr>timers := (timers w)(i := None)\<rparr>)) = sockets w"
        by (simp add: giveUp_def rws_defs split: option.split)
      with new TimerFires Some False c show ?thesis by simp
    next
      case True
      then have c: "callback t = ReconnectTick" and r: "reconnectInterval w = Some i" using t by auto
      have s: "step rt w ev = state_of (reconnectTick w)" using TimerFires Some True c by simp
      show ?thesis
      proof (cases "readyState (sockets w (instance_ref w))")
        case CONNECTING
        with new s show ?thesis by (simp add: reconnectTick_connecting)
      next
        case OPEN
        with new s r have "sid = instance_ref w"
          by (simp add: reconnectTick_open_active split: if_splits)
        with OPEN TimerFires Some c show ?thesis by simp
      next
        case CLOSING
        with new s r show ?thesis
          by (simp add: reconnectTick_closed remove_listener_set new_WebSocket_def split: if_splits)
      next
        case CLOSED
        with new s r show ?thesis
          by (simp add: reconnectTick_closed remove_listener_set new_WebSocket_def split: if_splits)
      qed
    qed
  qed
qed

section \<open>After the budget has run out\<close>

lemma given_up_step:
  assumes "consistent w" "given_up w" "app_safe ev"
  shows "quiet w (step rt w ev)"
proof -
  from assms(2) have n: "reconnectInterval w = None"
    and c: "\<And>sid. observer \<in> set (listeners (sockets w sid)) \<Longrightarrow> readyState (sockets w sid) = CLOSED"
    by (simp_all add: given_up_def)
  show ?thesis
  proof (cases ev)
    case (AddEventListener args)
    then have "JFun HandleWebSocketCloseEvent \<notin> set args" using assms(3) by simp
    from safe_not_observer [OF this] n c AddEventListener show ?thesis
      by (simp add: quiet_def given_up_def addEventListener_eq attach_set)
  next
    case (RemoveEventListener args)
    with n c show ?thesis
      by (simp add: quiet_def given_up_def removeEventListener_eq detach_set)
  next
    case Close
    with n c show ?thesis by (simp add: quiet_def given_up_def close_eq)
  next
    case (Send args)
    with n c show ?thesis by (simp add: quiet_def given_up_def send_eq)
  next
    case (SocketOpens x)
    with n c show ?thesis by (auto simp add: quiet_def given_up_def set_readyState_def)
  next
    case (SocketClosing x)
    with n c show ?thesis by (auto simp add: quiet_def given_up_def set_readyState_def)
  next
    case (SocketCloses x)
    show ?thesis
    proof (cases "x < socket_count w \<and> readyState (sockets w x) \<noteq> CLOSED")
      case False
      with assms(2) SocketCloses show ?thesis by (auto simp: quiet_def)
    next
      case True
      let ?w1 = "set_readyState x CLOSED w"
      have i1: "consistent ?w1" using assms(1) by (rule consistent_set_readyState) simp
      have "observer \<notin> set (listeners (sockets w x))" using c True by blast
      then have "dispatch_close rt x ?w1 = ?w1"
        using dispatch_close_inv [OF consistentD(2,3) [OF i1], of rt x] by simp
      with n c SocketCloses True show ?thesis
        by (simp add: quiet_def given_up_def) (simp add: set_readyState_def)
    qed
  next
    case (TimerFires i)
    show ?thesis
    proof (cases "timers w i")
      case None
      with assms(2) TimerFires show ?thesis by (simp add: quiet_def)
    next
      case (Some t)
      from consistentD(5) [OF assms(1)] Some n
      have t: "repeating t = (callback t = ReconnectTick)" "\<not> repeating t"
        unfolding inv_timers_def by force+
      then have g: "callback t = GiveUp" using timer_callback_cases by auto
      have "giveUp (w\<lparr>timers := (timers w)(i := None)\<rparr>) = w\<lparr>timers := (timers w)(i := None)\<rparr>"
        using n by (simp add: giveUp_idle)
      with n c TimerFires Some t g show ?thesis by (simp add: quiet_def given_up_def)
    qed
  qed
qed

lemma quiet_trans: "quiet a b \<Longrightarrow> quiet b c \<Longrightarrow> quiet a c"
  by (simp add: quiet_def)

lemma given_up_run:
  assumes "consistent w" "given_up w" "list_all app_safe evs"
  shows "quiet w (run rt w evs)"
  using assms
proof (induction evs arbitrary: w)
  case Nil
  then show ?case by (simp add: run_def quiet_def)
next
  case (Cons ev evs)
  from Cons.prems have s: "app_safe ev" "list_all app_safe evs" by simp_all
  have q: "quiet w (step rt w ev)" using Cons.prems(1,2) s(1) by (rule given_up_step)
  then have g: "given_up (step rt w ev)" by (simp add: quiet_def)
  have i: "consistent (step rt w ev)" using Cons.prems(1) s(1) by (rule consistent_step)
  have "quiet (step rt w ev) (run rt (step rt w ev) evs)" using i g s(2) by (rule Cons.IH)
  with q have "quiet w (run rt (step rt w ev) evs)" by (rule quiet_trans)
  then show ?case by (simp add: run_def)
qed

section \<open>Properties of all timers\<close>

lemma new_timers_ok_config: "config_of w' = config_of w \<Longrightarrow> new_timers_ok rt P w' = new_timers_ok rt P w"
  by (simp add: new_timers_ok_def config_of_def)

lemma timers_ok_sub:
  "timers_ok P w \<Longrightarrow> (\<And>k t. timers w' k = Some t \<Longrightarrow> timers w k = Some t) \<Longrightarrow> timers_ok P w'"
  unfolding timers_ok_def by blast

lemma timers_tick: "timers (state_of (reconnectTick w)) k = Some t \<Longrightarrow> timers w k = Some t"
  by (simp add: reconnectTick_def Let_def attachPrevious_eq addCloseEventListener_eq
      removeEventListener_closeArgs initWebSocketInstance_def on_instance_def
      resetReconnectAttempts_def stopReconnecting_def clearInterval_def
      split: option.splits if_splits)

lemma timers_giveUp: "timers (giveUp w) k = Some t \<Longrightarrow> timers w k = Some t"
  by (simp add: rws_defs split: option.splits if_splits)

lemma timers_ok_handle:
  assumes "timers_ok P w" "new_timers_ok rt P w"
  shows "timers_ok P (handleWebSocketCloseEvent rt w)"
  using assms unfolding timers_ok_def new_timers_ok_def
  by (simp (no_asm) add: handleWebSocketCloseEvent_eq; meson)

lemma timers_ok_dispatch:
  assumes "timers_ok P w" "new_timers_ok rt P w"
  shows "timers_ok P (dispatch_close rt sid w)"
proof -
  define n where "n = length (filter (\<lambda>l. fst l = JStr ''close'' \<and> fst (snd l) = JFun HandleWebSocketCloseEvent)
      (listeners (sockets w sid)))"
  have n: "dispatch_close rt sid w = (handleWebSocketCloseEvent rt ^^ n) w"
    unfolding dispatch_close_def n_def by (rule foldl_cond)
  have "timers_ok P ((handleWebSocketCloseEvent rt ^^ n) w) \<and> new_timers_ok rt P ((handleWebSocketCloseEvent rt ^^ n) w)"
  proof (rule funpow_invariant [where P = "\<lambda>x. timers_ok P x \<and> new_timers_ok rt P x"])
    show "timers_ok P w \<and> new_timers_ok rt P w" using assms by simp
  next
    fix x assume "timers_ok P x \<and> new_timers_ok rt P x"
    then have x: "timers_ok P x" "new_timers_ok rt P x" by blast+
    have "timers_ok P (handleWebSocketCloseEvent rt x)" using x by (rule timers_ok_handle)
    moreover have "new_timers_ok rt P (handleWebSocketCloseEvent rt x)"
      using x(2) new_timers_ok_config [OF config_handle] by blast
    ultimately show "timers_ok P (handleWebSocketCloseEvent rt x) \<and> new_timers_ok rt P (handleWebSocketCloseEvent rt x)"
      by simp
  qed
  with n show ?thesis by simp
qed

lemma timers_ok_step:
  assumes "timers_ok P w" "new_timers_ok rt P w"
  shows "timers_ok P (step rt w ev)"
proof (cases ev)
  case (SocketCloses sid)
  let ?w1 = "set_readyState sid CLOSED w"
  have "timers_ok P ?w1" "new_timers_ok rt P ?w1"
    using assms unfolding timers_ok_def new_timers_ok_def
    by (simp_all (no_asm_simp) add: set_readyState_def)
  then have "timers_ok P (dispatch_close rt sid ?w1)" by (rule timers_ok_dispatch)
  then show ?thesis using SocketCloses assms(1) by simp
next
  case (TimerFires i)
  show ?thesis
  proof (cases "timers w i")
    case None
    then show ?thesis using TimerFires assms(1) by simp
  next
    case (Some t)
    let ?w1 = "if repeating t then w else w\<lparr>timers := (timers w)(i := None)\<rparr>"
    have 1: "timers_ok P ?w1" using assms(1) unfolding timers_ok_def
      by (simp (no_asm); meson)
    have "timers_ok P (state_of (reconnectTick ?w1))" "timers_ok P (giveUp ?w1)"
      using 1 timers_tick timers_giveUp by (blast intro: timers_ok_sub)+
    then show ?thesis using TimerFires Some by (cases "callback t") (simp_all add: Let_def)
  qed
next
  case (AddEventListener args)
  with assms(1) show ?thesis unfolding timers_ok_def by (simp (no_asm_simp) add: addEventListener_eq)
next
  case (RemoveEventListener args)
  with assms(1) show ?thesis unfolding timers_ok_def by (simp (no_asm_simp) add: removeEventListener_eq)
next
  case Close
  with assms(1) show ?thesis unfolding timers_ok_def by (simp (no_asm_simp) add: close_eq)
next
  case (Send args)
  with assms(1) show ?thesis unfolding timers_ok_def by (simp (no_asm_simp) add: send_eq)
next
  case (SocketOpens sid)
  with assms(1) show ?thesis unfolding timers_ok_def by (simp (no_asm_simp) add: set_readyState_def)
next
  case (SocketClosing sid)
  with assms(1) show ?thesis unfolding timers_ok_def by (simp (no_asm_simp) add: set_readyState_def)
qed

lemma timers_ok_run:
  assumes "timers_ok P w" "new_timers_ok rt P w"
  shows "timers_ok P (run rt w evs)"
  using assms unfolding run_def
proof (induction evs arbitrary: w)
  case Nil
  then show ?case by simp
next
  case (Cons ev evs)
  have "timers_ok P (step rt w ev)" using Cons.prems by (rule timers_ok_step)
  moreover have "new_timers_ok rt P (step rt w ev)"
    using Cons.prems(2) new_timers_ok_config [OF config_step] by blast
  ultimately show ?case using Cons.IH by simp
qed

lemma not_positive_gt_zero: "not_positive n \<Longrightarrow> \<not> gt_zero rt (JNum n)"
  by (cases n) (simp_all add: gt_zero_def)

section \<open>The recorded subscriptions\<close>

lemma every_from_iff:
  "every_from i e args \<longleftrightarrow> (\<forall>j < length e. strict_eq (arg_at args (i + j)) (e ! j))"
proof (induction e arbitrary: i)
  case Nil
  show ?case by simp
next
  case (Cons x xs)
  have "(\<forall>j < Suc (length xs). strict_eq (arg_at args (i + j)) ((x # xs) ! j))
      \<longleftrightarrow> strict_eq (arg_at args i) x \<and> (\<forall>j < length xs. strict_eq (arg_at args (Suc i + j)) (xs ! j))"
    by (simp add: All_less_Suc2)
  with Cons show ?case by simp
qed

lemma count_list_filter_not:
  "count_list (filter (\<lambda>x. \<not> Q x) xs) e = (if Q e then 0 else count_list xs e)"
  by (induction xs) auto




lemma eventListeners_handle [simp]:
  "eventListeners (handleWebSocketCloseEvent rt w) = eventListeners w"
  by (simp add: handleWebSocketCloseEvent_eq)

lemma eventListeners_dispatch [simp]:
  "eventListeners (dispatch_close rt sid w) = eventListeners w"
proof -
  define n where "n = length (filter (\<lambda>l. fst l = JStr ''close'' \<and> fst (snd l) = JFun HandleWebSocketCloseEvent)
      (listeners (sockets w sid)))"
  have n: "dispatch_close rt sid w = (handleWebSocketCloseEvent rt ^^ n) w"
    unfolding dispatch_close_def n_def by (rule foldl_cond)
  have "eventListeners ((handleWebSocketCloseEvent rt ^^ n) w) = eventListeners w"
    by (rule funpow_invariant [where P = "\<lambda>x. eventListeners x = eventListeners w"]) simp_all
  with n show ?thesis by simp
qed







section \<open>The claims\<close>

text \<open>
  The theorems about states of a running manager are stated for the states reached from
  a constructed manager by any sequence of events in which the application does not pass
  the manager's own close handler to \<open>addEventListener\<close> or \<open>removeEventListener\<close>.
  The events carry no time: a timer that is set may fire at any point. The executions of
  a real event loop are among these sequences, so what holds for all of them holds for
  the real ones; each scenario below is also one the clock allows.
\<close>

subsection \<open>The reconnect tick\<close>




text \<open>
  Claim C5. When the periodic timer fires and the current transport is closed or
  closing, the manager detaches the disconnect observer from that transport, creates a
  new transport to the same endpoint and makes it current, and leaves the periodic timer
  running. The new transport has no listener, so not the observer either. In any
  reachable state, an event that attaches the observer to a transport is a timer firing
  while that transport is the current one and open (the other attachment is the one the
  constructor makes).
\<close>

theorem tick_closed_replaces:
  assumes "new_ReconnectingWebSocket u config = Inr w0"
    and "list_all app_safe evs"
    and "w = run rt w0 evs"
    and "timers w i = Some t" and "callback t = ReconnectTick"
    and "readyState (sockets w (instance_ref w)) = CLOSED
         \<or> readyState (sockets w (instance_ref w)) = CLOSING"
  shows "let w' = step rt w (TimerFires i); stale = instance_ref w in
      calls (sockets w' stale) = calls (sockets w stale) @ [CallRemoveEventListener closeArgs]
    \<and> (JStr ''close'', JFun HandleWebSocketCloseEvent, False) \<notin> set (listeners (sockets w' stale))
    \<and> stale < socket_count w
    \<and> instance_ref w' = socket_count w
    \<and> socket_count w' = Suc (socket_count w)
    \<and> sockets w' (instance_ref w') = \<lparr>ws_url = u, readyState = CONNECTING, listeners = [], calls = []\<rparr>
    \<and> timers w' = timers w
    \<and> repeating t
    \<and> reconnectInterval w' = Some i
    \<and> (\<forall>evs' ev sid. list_all app_safe evs' \<and> app_safe ev
          \<and> (JStr ''close'', JFun HandleWebSocketCloseEvent, False)
                \<in> set (listeners (sockets (step rt (run rt w0 evs') ev) sid))
          \<and> (JStr ''close'', JFun HandleWebSocketCloseEvent, False)
                \<notin> set (listeners (sockets (run rt w0 evs') sid))
          \<longrightarrow> (\<exists>j. ev = TimerFires j) \<and> sid = instance_ref (run rt w0 evs')
              \<and> readyState (sockets (run rt w0 evs') sid) = OPEN)"
proof -
  have i: "consistent w" using assms(1,2,3) by (simp add: consistent_new consistent_run)
  from consistentD(5) [OF i] assms(4,5) have r: "repeating t" "reconnectInterval w = Some i"
    unfolding inv_timers_def by blast+
  have s: "step rt w (TimerFires i) = state_of (reconnectTick w)" using assms(4,5) r by simp
  have u: "url w = u"
    using config_fields(3) [of rt w0 evs] new_ReconnectingWebSocket_eq [OF assms(1)] assms(3)
    by (metis rws.select_convs(3))
  note e = reconnectTick_closed [OF assms(6)]
  have st: "instance_ref w < socket_count w" using consistentD(1) [OF i] by (simp add: inv_inst_def)
  have only: "(\<exists>j. ev = TimerFires j) \<and> sid = instance_ref (run rt w0 evs')
       \<and> readyState (sockets (run rt w0 evs') sid) = OPEN"
    if "list_all app_safe evs'" "app_safe ev"
      "observer \<in> set (listeners (sockets (step rt (run rt w0 evs') ev) sid))"
      "observer \<notin> set (listeners (sockets (run rt w0 evs') sid))" for evs' ev sid
  proof -
    have "consistent (run rt w0 evs')" using assms(1) that(1) by (simp add: consistent_new consistent_run)
    from observer_only_on_open [OF this that(2,3,4)] show ?thesis by auto
  qed
  have main: "calls (sockets (state_of (reconnectTick w)) (instance_ref w))
        = calls (sockets w (instance_ref w)) @ [CallRemoveEventListener closeArgs]
    \<and> observer \<notin> set (listeners (sockets (state_of (reconnectTick w)) (instance_ref w)))
    \<and> instance_ref w < socket_count w
    \<and> instance_ref (state_of (reconnectTick w)) = socket_count w
    \<and> socket_count (state_of (reconnectTick w)) = Suc (socket_count w)
    \<and> sockets (state_of (reconnectTick w)) (instance_ref (state_of (reconnectTick w)))
          = \<lparr>ws_url = u, readyState = CONNECTING, listeners = [], calls = []\<rparr>
    \<and> timers (state_of (reconnectTick w)) = timers w
    \<and> repeating t
    \<and> reconnectInterval (state_of (reconnectTick w)) = Some i"
    using r u st by (simp add: e remove_listener_set new_WebSocket_def observer_def)
  show ?thesis
    unfolding Let_def s observer_eq [symmetric]
    using main only by blast
qed

theorem tick_closed_replaces_witness:
  "let w = run example_rt (example_manager JUndefined) [SocketOpens 0, SocketCloses 0];
       w' = step example_rt w (TimerFires 1) in
     readyState (sockets w (instance_ref w)) = CLOSED
   \<and> instance_ref w = 0
   \<and> calls (sockets w' 0) =
        [CallAddEventListener closeArgs, CallRemoveEventListener closeArgs]
   \<and> listeners (sockets w' 0) = []
   \<and> instance_ref w' = 1
   \<and> socket_count w' = 2
   \<and> sockets w' 1 = \<lparr>ws_url = JStr ''wss://x/y'', readyState = CONNECTING, listeners = [], calls = []\<rparr>
   \<and> reconnectInterval w' = Some 1
   \<and> timers w' 1 = Some \<lparr>repeating = True, callback = ReconnectTick, delay = JNum (Fin 3000)\<rparr>"
proof -
  let ?evs = "[SocketOpens 0, SocketCloses 0]"
  let ?w = "run example_rt (example_manager JUndefined) ?evs"
  have 1: "new_ReconnectingWebSocket (JStr ''wss://x/y'') JUndefined = Inr (example_manager JUndefined)"
    by (simp add: eval_defs)
  have 2: "list_all app_safe ?evs" by simp
  have 4: "timers ?w 1 = Some \<lparr>repeating = True, callback = ReconnectTick, delay = JNum (Fin 3000)\<rparr>"
    by (simp add: eval_defs)
  have 5: "callback \<lparr>repeating = True, callback = ReconnectTick, delay = JNum (Fin 3000)\<rparr> = ReconnectTick"
    by simp
  have 6: "readyState (sockets ?w (instance_ref ?w)) = CLOSED
         \<or> readyState (sockets ?w (instance_ref ?w)) = CLOSING"
    by (simp add: eval_defs)
  from tick_closed_replaces [OF 1 2 refl 4 5 6]
  show ?thesis by (simp add: eval_defs)
qed

subsection \<open>The budget\<close>

text \<open>
  Claim C6. When the budget timer fires while a retry cycle is active, the periodic
  timer is stopped and the attempt counter is reset to zero; after that, whatever events
  follow, no periodic timer exists, no attempt is logged, no transport is created and the
  current transport stays the same.
\<close>

theorem budget_expiry_is_final:
  assumes "new_ReconnectingWebSocket u config = Inr w0"
    and "list_all app_safe evs"
    and "w = run rt w0 evs"
    and "timers w i = Some t" and "callback t = GiveUp"
    and "reconnectInterval w = Some j"
    and "list_all app_safe evs'"
  shows "let w' = step rt w (TimerFires i); w'' = run rt w' evs' in
      timers w' j = None \<and> reconnectInterval w' = None \<and> reconnectAttempts w' = 0
    \<and> (\<forall>k t'. timers w'' k = Some t' \<longrightarrow> callback t' = GiveUp)
    \<and> reconnectInterval w'' = None
    \<and> reconnectAttempts w'' = 0
    \<and> console w'' = console w
    \<and> socket_count w'' = socket_count w
    \<and> instance_ref w'' = instance_ref w"
proof -
  have i: "consistent w" using assms(1,2,3) by (simp add: consistent_new consistent_run)
  from consistentD(5) [OF i] assms(4,5) have r: "\<not> repeating t"
    unfolding inv_timers_def by force
  let ?w1 = "w\<lparr>timers := (timers w)(i := None)\<rparr>"
  let ?w' = "step rt w (TimerFires i)"
  have r1: "reconnectInterval ?w1 = Some j" using assms(6) by simp
  have s: "?w' = ?w1\<lparr>timers := (timers ?w1)(j := None), reconnectInterval := None, reconnectAttempts := 0\<rparr>"
    using assms(4,5) r giveUp_active [OF r1] by simp
  have i': "consistent ?w'" using i by (rule consistent_step) simp
  have "observer \<notin> set (listeners (sockets w sid)) \<or> readyState (sockets w sid) = CLOSED" for sid
    using consistentD(4) [OF i] assms(6) unfolding inv_obs_def by force
  then have g: "given_up ?w'" unfolding s given_up_def by simp
  have q: "quiet ?w' (run rt ?w' evs')" using i' g assms(7) by (rule given_up_run)
  have i'': "consistent (run rt ?w' evs')" using i' assms(7) by (rule consistent_run)
  have nt: "callback t' = GiveUp" if "timers (run rt ?w' evs') k = Some t'" for k t'
  proof -
    from q have "reconnectInterval (run rt ?w' evs') = None" by (simp add: quiet_def given_up_def)
    with consistentD(5) [OF i''] that have "callback t' \<noteq> ReconnectTick"
      unfolding inv_timers_def by force
    then show ?thesis by (rule timer_callback_cases)
  qed
  have f: "timers ?w' j = None" "reconnectInterval ?w' = None" "reconnectAttempts ?w' = 0"
    "console ?w' = console w" "socket_count ?w' = socket_count w" "instance_ref ?w' = instance_ref w"
    unfolding s by simp_all
  show ?thesis
    unfolding Let_def using q nt f by (simp add: quiet_def given_up_def)
qed

theorem budget_expiry_is_final_witness:
  "let w = run example_rt (example_manager JUndefined) [SocketOpens 0, SocketCloses 0, TimerFires 1];
       w' = step example_rt w (TimerFires 2);
       w'' = run example_rt w'
               [TimerFires 1, SocketOpens 1, SocketCloses 1, TimerFires 2, Close,
                AddEventListener [JStr ''message'', JFun (AppFn 1)]] in
     reconnectInterval w = Some 1
   \<and> console w = [1]
   \<and> timers w' 1 = None
   \<and> reconnectInterval w' = None
   \<and> reconnectAttempts w' = 0
   \<and> readyState (sockets w'' 1) = CLOSED
   \<and> reconnectInterval w'' = None
   \<and> console w'' = [1]
   \<and> socket_count w'' = 2"
proof -
  let ?evs = "[SocketOpens 0, SocketCloses 0, TimerFires 1]"
  let ?evs' = "[TimerFires 1, SocketOpens 1, SocketCloses 1, TimerFires 2, Close,
                AddEventListener [JStr ''message'', JFun (AppFn 1)]]"
  let ?w = "run example_rt (example_manager JUndefined) ?evs"
  have 1: "new_ReconnectingWebSocket (JStr ''wss://x/y'') JUndefined = Inr (example_manager JUndefined)"
    by (simp add: eval_defs)
  have 2: "list_all app_safe ?evs" by simp
  have 4: "timers ?w 2 = Some \<lparr>repeating = False, callback = GiveUp, delay = JNum (Fin 3600000)\<rparr>"
    by (simp add: eval_defs)
  have 5: "callback \<lparr>repeating = False, callback = GiveUp, delay = JNum (Fin 3600000)\<rparr> = GiveUp"
    by simp
  have 6: "reconnectInterval ?w = Some 1"
    by (simp add: eval_defs)
  have 7: "list_all app_safe ?evs'" by simp
  from budget_expiry_is_final [OF 1 2 refl 4 5 6 7]
  show ?thesis by (simp add: eval_defs)
qed

text \<open>
  Claim C2. The claim is that a budget timer started in one disconnect episode never
  stops the retry cycle of a later episode. The code never clears a budget timer. In the
  scenario (retry interval 10 ms, budget 25 ms) the first transport is lost at time 0,
  the tick at 10 ms replaces it, the tick at 20 ms finds the replacement open and ends the
  first episode with the budget timer 2 still set; the replacement is lost (say at 22 ms),
  which starts the periodic timer 3 and the budget timer 4; at 25 ms timer 2 of the first
  episode fires, finds \<open>reconnectInterval\<close> set, and stops timer 3: the second episode
  is over after 3 ms, and no later event makes another attempt.
\<close>

theorem stale_budget_timer_stops_later_episode:
  "readyState (sockets (run example_rt (example_manager budget_10_25) reconnected_once) 1) = OPEN
   \<and> instance_ref (run example_rt (example_manager budget_10_25) reconnected_once) = 1
   \<and> reconnectInterval (run example_rt (example_manager budget_10_25) reconnected_once) = None
   \<and> timers (run example_rt (example_manager budget_10_25) reconnected_once) 2
        = Some \<lparr>repeating = False, callback = GiveUp, delay = JNum (Fin 25)\<rparr>
   \<and> reconnectInterval (run example_rt (example_manager budget_10_25)
          (reconnected_once @ [SocketCloses 1])) = Some 3
   \<and> timers (run example_rt (example_manager budget_10_25)
          (reconnected_once @ [SocketCloses 1])) 3
        = Some \<lparr>repeating = True, callback = ReconnectTick, delay = JNum (Fin 10)\<rparr>
   \<and> timers (run example_rt (example_manager budget_10_25)
          (reconnected_once @ [SocketCloses 1])) 2
        = Some \<lparr>repeating = False, callback = GiveUp, delay = JNum (Fin 25)\<rparr>
   \<and> reconnectInterval (run example_rt (example_manager budget_10_25)
          (reconnected_once @ [SocketCloses 1, TimerFires 2])) = None
   \<and> timers (run example_rt (example_manager budget_10_25)
          (reconnected_once @ [SocketCloses 1, TimerFires 2])) 3 = None
   \<and> console (run example_rt (example_manager budget_10_25)
          (reconnected_once @ [SocketCloses 1])) = [1, 2]
   \<and> console (run example_rt (example_manager budget_10_25)
          (reconnected_once @ [SocketCloses 1, TimerFires 2, TimerFires 3, TimerFires 4, TimerFires 3]))
        = [1, 2]
   \<and> readyState (sockets (run example_rt (example_manager budget_10_25)
          (reconnected_once @ [SocketCloses 1, TimerFires 2, TimerFires 3, TimerFires 4, TimerFires 3])) 1)
        = CLOSED
   \<and> instance_ref (run example_rt (example_manager budget_10_25)
          (reconnected_once @ [SocketCloses 1, TimerFires 2, TimerFires 3, TimerFires 4, TimerFires 3]))
        = 1"
  by (simp add: eval_defs scenario_defs)

text \<open>
  Claim C7. Constructed without a configuration, the manager has a retry interval of
  3000 ms and a budget of 3600000 ms. When the parsed budget is a number that is zero or
  negative, no budget timer exists in any state the manager reaches, while the close
  handler still starts the periodic timer.
\<close>

theorem defaults_and_disabled_budget:
  "(\<exists>w0. new_ReconnectingWebSocket u JUndefined = Inr w0
        \<and> autoReconnectMS w0 = JNum (Fin 3000)
        \<and> stopReconnectingAfterMS w0 = JNum (Fin 3600000))
   \<and> (new_ReconnectingWebSocket u config = Inr w0
        \<and> stopReconnectingAfterMS w0 = JNum n \<and> not_positive n \<longrightarrow>
        (\<forall>evs k t. timers (run rt w0 evs) k = Some t \<longrightarrow> callback t = ReconnectTick)
      \<and> (\<forall>evs. let w = run rt w0 evs; w' = handleWebSocketCloseEvent rt w in
            reconnectInterval w' = Some (next_timer w)
          \<and> timers w' = (timers w)(next_timer w \<mapsto>
                \<lparr>repeating = True, callback = ReconnectTick, delay = autoReconnectMS w0\<rparr>)))"
proof (intro conjI impI)
  show "\<exists>w0. new_ReconnectingWebSocket u JUndefined = Inr w0
        \<and> autoReconnectMS w0 = JNum (Fin 3000)
        \<and> stopReconnectingAfterMS w0 = JNum (Fin 3600000)"
    by (simp add: new_ReconnectingWebSocket_def or_default_def parseTimeToMS_def hourInMS_def
        convertHoursToMS_def initWebSocketInstance_def Let_def addCloseEventListener_eq)
next
  assume a: "new_ReconnectingWebSocket u config = Inr w0
        \<and> stopReconnectingAfterMS w0 = JNum n \<and> not_positive n"
  then have a1: "new_ReconnectingWebSocket u config = Inr w0" by simp
  from a have g: "\<not> gt_zero rt (stopReconnectingAfterMS w0)"
    using not_positive_gt_zero by simp
  have 0: "timers_ok (\<lambda>t. callback t = ReconnectTick) w0"
    using timers_new [OF a1] by (simp add: timers_ok_def)
  have 1: "new_timers_ok rt (\<lambda>t. callback t = ReconnectTick) w0"
    using g by (simp add: new_timers_ok_def)
  show "\<forall>evs k t. timers (run rt w0 evs) k = Some t \<longrightarrow> callback t = ReconnectTick"
    using timers_ok_run [OF 0 1] unfolding timers_ok_def by blast
  show "\<forall>evs. let w = run rt w0 evs; w' = handleWebSocketCloseEvent rt w in
            reconnectInterval w' = Some (next_timer w)
          \<and> timers w' = (timers w)(next_timer w \<mapsto>
                \<lparr>repeating = True, callback = ReconnectTick, delay = autoReconnectMS w0\<rparr>)"
    using g by (simp add: Let_def handleWebSocketCloseEvent_eq config_fields)
qed

theorem defaults_and_disabled_budget_witness:
  "autoReconnectMS (example_manager JUndefined) = JNum (Fin 3000)
   \<and> stopReconnectingAfterMS (example_manager JUndefined) = JNum (Fin 3600000)
   \<and> stopReconnectingAfterMS (example_manager (JObj 1 [(''stopReconnectingAfter'', JNum (Fin 0))]))
       = JNum (Fin 0)
   \<and> (let w = run example_rt (example_manager (JObj 1 [(''stopReconnectingAfter'', JNum (Fin 0))]))
                 [SocketOpens 0, SocketCloses 0] in
         reconnectInterval w = Some 1
       \<and> timers w 1 = Some \<lparr>repeating = True, callback = ReconnectTick, delay = JNum (Fin 3000)\<rparr>
       \<and> timers w 2 = None
       \<and> next_timer w = 2)"
proof -
  let ?c = "JObj 1 [(''stopReconnectingAfter'', JNum (Fin 0))]"
  have 1: "new_ReconnectingWebSocket (JStr ''wss://x/y'') ?c = Inr (example_manager ?c)"
    by (simp add: eval_defs)
  have 2: "stopReconnectingAfterMS (example_manager ?c) = JNum (Fin 0)"
    by (simp add: eval_defs)
  have 3: "not_positive (Fin 0)" by simp
  from defaults_and_disabled_budget [of "JStr ''wss://x/y''" ?c "example_manager ?c" "Fin 0" example_rt]
    1 2 3
  show ?thesis by (simp add: eval_defs)
qed

subsection \<open>Durations\<close>

text \<open>
  Claim C4. The duration parser maps "d", "D" and "day" to 86400000, maps "h", "H"
  and "hour" to 3600000, returns a finite number as it is, and returns every other value
  (a number that is not finite, any other string, anything else) unchanged; the budget of
  a manager is the parsed value of the \<open>stopReconnectingAfter\<close> it was given.
\<close>

theorem parseTimeToMS_table:
  "parseTimeToMS (JStr ''d'') = JNum (Fin 86400000)
   \<and> parseTimeToMS (JStr ''D'') = JNum (Fin 86400000)
   \<and> parseTimeToMS (JStr ''day'') = JNum (Fin 86400000)
   \<and> parseTimeToMS (JStr ''h'') = JNum (Fin 3600000)
   \<and> parseTimeToMS (JStr ''H'') = JNum (Fin 3600000)
   \<and> parseTimeToMS (JStr ''hour'') = JNum (Fin 3600000)
   \<and> parseTimeToMS (JNum (Fin r)) = JNum (Fin r)
   \<and> (v \<notin> JStr ` {''d'', ''D'', ''day'', ''h'', ''H'', ''hour''} \<longrightarrow> parseTimeToMS v = v)
   \<and> (new_ReconnectingWebSocket u config = Inr w0
        \<and> get_prop config ''stopReconnectingAfter'' \<noteq> JUndefined \<longrightarrow>
        stopReconnectingAfterMS w0 = parseTimeToMS (get_prop config ''stopReconnectingAfter''))"
proof -
  have table: "parseTimeToMS (JStr ''d'') = JNum (Fin 86400000)"
    "parseTimeToMS (JStr ''D'') = JNum (Fin 86400000)"
    "parseTimeToMS (JStr ''day'') = JNum (Fin 86400000)"
    "parseTimeToMS (JStr ''h'') = JNum (Fin 3600000)"
    "parseTimeToMS (JStr ''H'') = JNum (Fin 3600000)"
    "parseTimeToMS (JStr ''hour'') = JNum (Fin 3600000)"
    "parseTimeToMS (JNum (Fin r)) = JNum (Fin r)"
    by (simp_all add: parseTimeToMS_def dayInMS_def hourInMS_def convertDaysToMS_def
        convertHoursToMS_def)
  have other: "v \<notin> JStr ` {''d'', ''D'', ''day'', ''h'', ''H'', ''hour''} \<longrightarrow> parseTimeToMS v = v"
    by (auto simp: parseTimeToMS_def strict_eq_JStr)
  have budget: "stopReconnectingAfterMS w0 = parseTimeToMS (get_prop config ''stopReconnectingAfter'')"
    if "new_ReconnectingWebSocket u config = Inr w0"
      "get_prop config ''stopReconnectingAfter'' \<noteq> JUndefined"
  proof -
    have "stopReconnectingAfterMS w0 =
        parseTimeToMS (or_default (get_prop config ''stopReconnectingAfter'') (JNum (Fin hourInMS)))"
      using new_ReconnectingWebSocket_eq [OF that(1)] by (metis rws.select_convs(2))
    with that(2) show ?thesis by (simp add: or_default_def)
  qed
  from table other budget show ?thesis by blast
qed

theorem parseTimeToMS_table_witness:
  "parseTimeToMS (JStr ''day'') = JNum (Fin 86400000)
   \<and> parseTimeToMS (JStr ''hour'') = JNum (Fin 3600000)
   \<and> parseTimeToMS (JNum (Fin 2500)) = JNum (Fin 2500)
   \<and> parseTimeToMS (JNum NaN) = JNum NaN
   \<and> parseTimeToMS (JNum PosInf) = JNum PosInf
   \<and> parseTimeToMS (JStr ''week'') = JStr ''week''
   \<and> parseTimeToMS JUndefined = JUndefined
   \<and> stopReconnectingAfterMS (example_manager (JObj 1 [(''stopReconnectingAfter'', JStr ''day'')]))
       = JNum (Fin 86400000)"
proof -
  let ?c = "JObj 1 [(''stopReconnectingAfter'', JStr ''day'')]"
  have 1: "new_ReconnectingWebSocket (JStr ''wss://x/y'') ?c = Inr (example_manager ?c)"
    by (simp add: eval_defs)
  have 2: "get_prop ?c ''stopReconnectingAfter'' = JStr ''day''" by simp
  note t = parseTimeToMS_table [of 2500 _ "JStr ''wss://x/y''" ?c "example_manager ?c"]
  note rest = t [THEN conjunct2, THEN conjunct2]
  note day = rest [THEN conjunct1]
  note rest = rest [THEN conjunct2, THEN conjunct2, THEN conjunct2]
  note hour = rest [THEN conjunct1]
  note rest = rest [THEN conjunct2]
  note num = rest [THEN conjunct1]
  note other = rest [THEN conjunct2, THEN conjunct1, THEN mp]
  note budget = rest [THEN conjunct2, THEN conjunct2, THEN mp]
  have a: "parseTimeToMS (JNum NaN) = JNum NaN" by (rule other) auto
  have b: "parseTimeToMS (JNum PosInf) = JNum PosInf" by (rule other) auto
  have c: "parseTimeToMS (JStr ''week'') = JStr ''week''" by (rule other) auto
  have d: "parseTimeToMS JUndefined = JUndefined" by (rule other) auto
  have "stopReconnectingAfterMS (example_manager ?c) = parseTimeToMS (get_prop ?c ''stopReconnectingAfter'')"
    by (rule budget) (use 1 in simp)
  then have e: "stopReconnectingAfterMS (example_manager ?c) = JNum (Fin 86400000)"
    using day by simp
  from day hour num a b c d e
  show ?thesis by simp
qed

text \<open>
  Claim C9. The retry interval is stored as given (3000 when none is given), without
  parsing; only the budget is parsed. The stored value never changes, and every periodic
  timer is set with it as its delay: given "h", the periodic timer's delay is the string
  "h".
\<close>

theorem retry_interval_verbatim:
  "new_ReconnectingWebSocket u config = Inr w0 \<longrightarrow>
     autoReconnectMS w0 =
       (if get_prop config ''autoReconnectMS'' = JUndefined then JNum (Fin 3000)
        else get_prop config ''autoReconnectMS'')
   \<and> stopReconnectingAfterMS w0 =
       parseTimeToMS (if get_prop config ''stopReconnectingAfter'' = JUndefined
                      then JNum (Fin hourInMS) else get_prop config ''stopReconnectingAfter'')
   \<and> autoReconnectMS (run rt w0 evs) = autoReconnectMS w0
   \<and> (\<forall>k t. timers (run rt w0 evs) k = Some t \<and> callback t = ReconnectTick \<longrightarrow>
          delay t = autoReconnectMS w0)"
proof
  assume a: "new_ReconnectingWebSocket u config = Inr w0"
  have 0: "timers_ok (\<lambda>t. callback t = ReconnectTick \<longrightarrow> delay t = autoReconnectMS w0) w0"
    using timers_new [OF a] by (simp add: timers_ok_def)
  have 1: "new_timers_ok rt (\<lambda>t. callback t = ReconnectTick \<longrightarrow> delay t = autoReconnectMS w0) w0"
    by (simp add: new_timers_ok_def)
  have 2: "\<forall>k t. timers (run rt w0 evs) k = Some t \<and> callback t = ReconnectTick \<longrightarrow>
          delay t = autoReconnectMS w0"
    using timers_ok_run [OF 0 1, of evs] unfolding timers_ok_def by blast
  have 3: "autoReconnectMS w0 = or_default (get_prop config ''autoReconnectMS'') (JNum (Fin 3000))"
    "stopReconnectingAfterMS w0 =
       parseTimeToMS (or_default (get_prop config ''stopReconnectingAfter'') (JNum (Fin hourInMS)))"
    using new_ReconnectingWebSocket_eq [OF a] by (metis rws.select_convs(1), metis rws.select_convs(2))
  show "autoReconnectMS w0 =
       (if get_prop config ''autoReconnectMS'' = JUndefined then JNum (Fin 3000)
        else get_prop config ''autoReconnectMS'')
   \<and> stopReconnectingAfterMS w0 =
       parseTimeToMS (if get_prop config ''stopReconnectingAfter'' = JUndefined
                      then JNum (Fin hourInMS) else get_prop config ''stopReconnectingAfter'')
   \<and> autoReconnectMS (run rt w0 evs) = autoReconnectMS w0
   \<and> (\<forall>k t. timers (run rt w0 evs) k = Some t \<and> callback t = ReconnectTick \<longrightarrow>
          delay t = autoReconnectMS w0)"
    using 2 3 by (simp add: config_fields or_default_def)
qed

theorem retry_interval_verbatim_witness:
  "autoReconnectMS (example_manager
       (JObj 1 [(''autoReconnectMS'', JStr ''h''), (''stopReconnectingAfter'', JStr ''h'')]))
     = JStr ''h''
   \<and> stopReconnectingAfterMS (example_manager
       (JObj 1 [(''autoReconnectMS'', JStr ''h''), (''stopReconnectingAfter'', JStr ''h'')]))
     = JNum (Fin 3600000)
   \<and> timers (run example_rt (example_manager
       (JObj 1 [(''autoReconnectMS'', JStr ''h''), (''stopReconnectingAfter'', JStr ''h'')]))
       [SocketOpens 0, SocketCloses 0]) 1
     = Some \<lparr>repeating = True, callback = ReconnectTick, delay = JStr ''h''\<rparr>"
proof -
  let ?c = "JObj 1 [(''autoReconnectMS'', JStr ''h''), (''stopReconnectingAfter'', JStr ''h'')]"
  have 1: "new_ReconnectingWebSocket (JStr ''wss://x/y'') ?c = Inr (example_manager ?c)"
    by (simp add: eval_defs)
  from retry_interval_verbatim [of "JStr ''wss://x/y''" ?c "example_manager ?c" example_rt
      "[SocketOpens 0, SocketCloses 0]"] 1
  show ?thesis by (simp add: eval_defs)
qed

subsection \<open>The recorded subscriptions\<close>

text \<open>
  Claim C3. As stated (the first structurally equal tuple is removed, and an entry
  that differs in any of the three fields stays) the claim fails; see the counterexample
  below. What holds: \<open>removeEventListener\<close> compares with \<open>===\<close> (functions and
  objects by identity), a missing argument and a missing field being \<open>undefined\<close>.
  A recorded entry one of whose fields is not \<open>===\<close> to the argument at its position
  stays, as often as it was recorded; every recorded entry, not only the first, that
  agrees with the call at every position of either is removed; and the order of what
  stays is unchanged. Nothing is said of an entry that has fewer fields than the call
  has arguments, agrees with it on its own fields and not beyond them.
\<close>

theorem removeEventListener_registry:
  "let L = eventListeners w; L' = eventListeners (state_of (removeEventListener args w)) in
     subseq L' L
   \<and> (\<forall>e. (\<exists>j < length e. \<not> strict_eq (arg_at args j) (e ! j)) \<longrightarrow>
         count_list L' e = count_list L e)
   \<and> (\<forall>e. (\<forall>j < max (length e) (length args). strict_eq (arg_at args j) (arg_at e j)) \<longrightarrow>
         count_list L' e = 0)"
proof -
  let ?match = "\<lambda>e. \<forall>j < length e. strict_eq (arg_at args j) (e ! j)"
  have f: "eventListeners (state_of (removeEventListener args w)) = filter (\<lambda>e. \<not> ?match e) (eventListeners w)"
    by (simp add: removeEventListener_eq every_from_iff)
  have s: "subseq (filter (\<lambda>e. \<not> ?match e) (eventListeners w)) (eventListeners w)"
    by simp
  have c: "count_list (filter (\<lambda>e. \<not> ?match e) (eventListeners w)) e
      = (if ?match e then 0 else count_list (eventListeners w) e)" for e
    by (rule count_list_filter_not)
  have stays: "count_list (filter (\<lambda>e. \<not> ?match e) (eventListeners w)) e = count_list (eventListeners w) e"
    if "\<exists>j < length e. \<not> strict_eq (arg_at args j) (e ! j)" for e
  proof -
    from that have "\<not> ?match e" by blast
    with c [of e] show ?thesis by simp
  qed
  have goes: "count_list (filter (\<lambda>e. \<not> ?match e) (eventListeners w)) e = 0"
    if m: "\<forall>j < max (length e) (length args). strict_eq (arg_at args j) (arg_at e j)" for e
  proof -
    have "?match e"
    proof (intro allI impI)
      fix j assume j: "j < length e"
      then have "j < max (length e) (length args)" by simp
      with m have "strict_eq (arg_at args j) (arg_at e j)" by blast
      with j show "strict_eq (arg_at args j) (e ! j)" by (simp add: arg_at_def)
    qed
    with c [of e] show ?thesis by simp
  qed
  show ?thesis unfolding Let_def f using s stays goes by blast
qed

theorem removeEventListener_registry_witness:
  "let m = JStr ''message''; f = JFun (AppFn 1); g = JFun (AppFn 2);
       opts = JObj 1 [(''capture'', JBool True)];
       w = run example_rt (example_manager JUndefined)
             [AddEventListener [m, f, opts], AddEventListener [m, g, opts],
              AddEventListener [m, f, opts]];
       L = eventListeners w;
       L' = eventListeners (state_of (removeEventListener [m, f, opts] w)) in
     L = [closeArgs, [m, f, opts], [m, g, opts], [m, f, opts]]
   \<and> subseq L' L
   \<and> count_list L' [m, f, opts] = 0
   \<and> count_list L' [m, g, opts] = 1
   \<and> count_list L' closeArgs = 1
   \<and> L' = [closeArgs, [m, g, opts]]"
proof -
  let ?m = "JStr ''message''" and ?f = "JFun (AppFn 1)" and ?g = "JFun (AppFn 2)"
  let ?o = "JObj 1 [(''capture'', JBool True)]"
  let ?w = "run example_rt (example_manager JUndefined)
             [AddEventListener [?m, ?f, ?o], AddEventListener [?m, ?g, ?o],
              AddEventListener [?m, ?f, ?o]]"
  have L: "eventListeners ?w = [closeArgs, [?m, ?f, ?o], [?m, ?g, ?o], [?m, ?f, ?o]]"
    by (simp add: eval_defs)
  have "eventListeners (state_of (removeEventListener [?m, ?f, ?o] ?w))
      = filter (\<lambda>e. \<not> every_from 0 e [?m, ?f, ?o]) (eventListeners ?w)"
    by (simp add: removeEventListener_eq)
  also have "\<dots> = filter (\<lambda>e. \<not> every_from 0 e [?m, ?f, ?o])
      [closeArgs, [?m, ?f, ?o], [?m, ?g, ?o], [?m, ?f, ?o]]"
    by (simp only: L)
  also have "\<dots> = [closeArgs, [?m, ?g, ?o]]"
    by (simp add: closeArgs_def arg_at_def)
  finally have L': "eventListeners (state_of (removeEventListener [?m, ?f, ?o] ?w))
      = [closeArgs, [?m, ?g, ?o]]" .
  note t = removeEventListener_registry [of ?w "[?m, ?f, ?o]", unfolded Let_def]
  have same: "\<forall>j < max (length [?m, ?f, ?o]) (length [?m, ?f, ?o]).
      strict_eq (arg_at [?m, ?f, ?o] j) (arg_at [?m, ?f, ?o] j)"
    by (simp add: arg_at_def less_Suc_eq numeral_3_eq_3 nth_Cons')
  have other: "\<exists>j < length [?m, ?g, ?o]. \<not> strict_eq (arg_at [?m, ?f, ?o] j) ([?m, ?g, ?o] ! j)"
    by (rule exI [of _ 1]) (simp add: arg_at_def)
  have own: "\<exists>j < length closeArgs. \<not> strict_eq (arg_at [?m, ?f, ?o] j) (closeArgs ! j)"
    by (rule exI [of _ 0]) (simp add: arg_at_def closeArgs_def)
  note a = t [THEN conjunct1]
  note b = t [THEN conjunct2, THEN conjunct2, THEN spec, THEN mp, OF same]
  note c = t [THEN conjunct2, THEN conjunct1, THEN spec, THEN mp, OF other]
  note d = t [THEN conjunct2, THEN conjunct1, THEN spec, THEN mp, OF own]
  from a b c d show ?thesis
    unfolding Let_def L L' by (simp add: closeArgs_def)
qed

text \<open>
  The counterexample: two equal recorded tuples are both removed by one call; a tuple
  whose options object has the same contents but another identity removes nothing; and
  the entry recorded for \<open>('message', f)\<close> is removed by the call
  \<open>('message', f, true)\<close>, from which it differs in the options.
\<close>

theorem removeEventListener_registry_counterexample:
  "eventListeners (run example_rt (example_manager JUndefined)
       [AddEventListener [JStr ''message'', JFun (AppFn 1), JObj 1 [(''capture'', JBool True)]],
        AddEventListener [JStr ''message'', JFun (AppFn 1), JObj 1 [(''capture'', JBool True)]],
        RemoveEventListener [JStr ''message'', JFun (AppFn 1), JObj 1 [(''capture'', JBool True)]]])
     = [closeArgs]
   \<and> eventListeners (run example_rt (example_manager JUndefined)
       [AddEventListener [JStr ''message'', JFun (AppFn 1), JObj 1 [(''capture'', JBool True)]],
        RemoveEventListener [JStr ''message'', JFun (AppFn 1), JObj 2 [(''capture'', JBool True)]]])
     = [closeArgs, [JStr ''message'', JFun (AppFn 1), JObj 1 [(''capture'', JBool True)]]]
   \<and> eventListeners (run example_rt (example_manager JUndefined)
       [AddEventListener [JStr ''message'', JFun (AppFn 1)],
        RemoveEventListener [JStr ''message'', JFun (AppFn 1), JBool True]])
     = [closeArgs]"
  by (simp add: eval_defs)

text \<open>
  Claim C8. The claim is that \<open>removeEventListener\<close> with a tuple that was never
  added leaves the recorded sequence unchanged. After \<open>addEventListener('message', f)\<close>
  the call \<open>removeEventListener('message', f, true)\<close> names a tuple that was never
  added, yet the recorded entry \<open>('message', f)\<close> is removed: the comparison runs over
  the fields of the entry only and never looks at the third argument. The transport
  keeps the listener, which differs in its capture flag.
\<close>

theorem removeEventListener_never_added_tuple:
  "eventListeners (run example_rt (example_manager JUndefined)
       [AddEventListener [JStr ''message'', JFun (AppFn 1)]])
     = [closeArgs, [JStr ''message'', JFun (AppFn 1)]]
   \<and> [JStr ''message'', JFun (AppFn 1), JBool True]
       \<notin> set (eventListeners (run example_rt (example_manager JUndefined)
              [AddEventListener [JStr ''message'', JFun (AppFn 1)]]))
   \<and> eventListeners (run example_rt (example_manager JUndefined)
       [AddEventListener [JStr ''message'', JFun (AppFn 1)],
        RemoveEventListener [JStr ''message'', JFun (AppFn 1), JBool True]])
     = [closeArgs]
   \<and> listeners (sockets (run example_rt (example_manager JUndefined)
       [AddEventListener [JStr ''message'', JFun (AppFn 1)],
        RemoveEventListener [JStr ''message'', JFun (AppFn 1), JBool True]]) 0)
     = [(JStr ''close'', JFun HandleWebSocketCloseEvent, False),
        (JStr ''message'', JFun (AppFn 1), False)]"
  by (simp add: eval_defs)

subsection \<open>Closing on purpose\<close>

text \<open>
  Claim C10. \<open>close()\<close> only calls \<open>close()\<close> on the current transport: no timer,
  no listener and no field of the manager changes. With the disconnect observer attached
  to an open current transport, the transport's close event then starts the periodic
  timer, and the first tick creates a new transport to the same endpoint: the manager
  reconnects after an intentional close.
\<close>

theorem close_then_reconnects:
  assumes "new_ReconnectingWebSocket u config = Inr w0"
    and "list_all app_safe evs"
    and "w = run rt w0 evs"
    and "readyState (sockets w (instance_ref w)) = OPEN"
    and "(JStr ''close'', JFun HandleWebSocketCloseEvent, False) \<in> set (listeners (sockets w (instance_ref w)))"
  shows "let s = instance_ref w;
             w1 = step rt w Close;
             w2 = step rt w1 (SocketCloses s);
             w3 = step rt w2 (TimerFires (next_timer w)) in
      w1 = w\<lparr>sockets := (sockets w)(s := (sockets w s)\<lparr>readyState := CLOSING,
                                                        calls := calls (sockets w s) @ [CallClose]\<rparr>)\<rparr>
    \<and> reconnectInterval w = None
    \<and> reconnectInterval w2 = Some (next_timer w)
    \<and> timers w2 (next_timer w) =
         Some \<lparr>repeating = True, callback = ReconnectTick, delay = autoReconnectMS w\<rparr>
    \<and> readyState (sockets w2 s) = CLOSED
    \<and> instance_ref w3 = socket_count w
    \<and> socket_count w3 = Suc (socket_count w)
    \<and> sockets w3 (socket_count w) = \<lparr>ws_url = u, readyState = CONNECTING, listeners = [], calls = []\<rparr>
    \<and> console w3 = console w @ [Suc (reconnectAttempts w)]"
proof -
  let ?s = "instance_ref w"
  have i: "consistent w" using assms(1,2,3) by (simp add: consistent_new consistent_run)
  have h: "observer \<in> set (listeners (sockets w ?s))" using assms(5) by (simp add: observer_eq)
  have n: "reconnectInterval w = None"
    using consistentD(4) [OF i, unfolded inv_obs_def, rule_format, of ?s] h assms(4) by simp
  have st: "?s < socket_count w" using consistentD(1) [OF i] by (simp add: inv_inst_def)
  have u: "url w = u"
    using config_fields(3) [of rt w0 evs] new_ReconnectingWebSocket_eq [OF assms(1)] assms(3)
    by (metis rws.select_convs(3))
  define w1 where "w1 = w\<lparr>sockets := (sockets w)(?s := (sockets w ?s)\<lparr>readyState := CLOSING,
                                                        calls := calls (sockets w ?s) @ [CallClose]\<rparr>)\<rparr>"
  have 1: "step rt w Close = w1"
    using assms(4) by (simp add: w1_def close_eq ws_close_def)
  have i1: "consistent w1" using consistent_step [OF i, of Close rt] 1 by simp
  let ?c = "set_readyState ?s CLOSED w1"
  have ic: "consistent ?c" using i1 by (rule consistent_set_readyState) simp
  have "dispatch_close rt ?s ?c = handleWebSocketCloseEvent rt ?c"
    using dispatch_close_inv [OF consistentD(2,3) [OF ic], of rt ?s] h by (simp add: w1_def)
  then have 2: "step rt w1 (SocketCloses ?s) = handleWebSocketCloseEvent rt ?c"
    using st by (simp add: w1_def)
  define w2 where "w2 = handleWebSocketCloseEvent rt ?c"
  have f2: "reconnectInterval w2 = Some (next_timer w)"
    "timers w2 (next_timer w) =
         Some \<lparr>repeating = True, callback = ReconnectTick, delay = autoReconnectMS w\<rparr>"
    "readyState (sockets w2 ?s) = CLOSED" "instance_ref w2 = ?s" "url w2 = u"
    "socket_count w2 = socket_count w" "console w2 = console w" "reconnectAttempts w2 = reconnectAttempts w"
    unfolding w2_def handleWebSocketCloseEvent_eq
    by (simp_all add: w1_def set_readyState_def u)
  have 3: "step rt w2 (TimerFires (next_timer w)) = state_of (reconnectTick w2)"
    using f2(2) by simp
  have c: "readyState (sockets w2 (instance_ref w2)) = CLOSED \<or> readyState (sockets w2 (instance_ref w2)) = CLOSING"
    using f2 by simp
  have r: "reconnectInterval w2 \<noteq> None" using f2 by simp
  note e = reconnectTick_closed [OF c r]
  have f3: "instance_ref (state_of (reconnectTick w2)) = socket_count w"
    "socket_count (state_of (reconnectTick w2)) = Suc (socket_count w)"
    "sockets (state_of (reconnectTick w2)) (socket_count w) = \<lparr>ws_url = u, readyState = CONNECTING, listeners = [], calls = []\<rparr>"
    "console (state_of (reconnectTick w2)) = console w @ [Suc (reconnectAttempts w)]"
    unfolding e using f2 by (simp_all add: new_WebSocket_def)
  show ?thesis
    unfolding Let_def 1 2 w2_def [symmetric] 3
    using n f2 f3 by (simp add: w1_def)
qed

theorem close_then_reconnects_witness:
  "let w = run example_rt (example_manager JUndefined) [SocketOpens 0];
       w1 = step example_rt w Close;
       w2 = step example_rt w1 (SocketCloses 0);
       w3 = step example_rt w2 (TimerFires 1) in
     readyState (sockets w 0) = OPEN
   \<and> readyState (sockets w1 0) = CLOSING
   \<and> calls (sockets w1 0) = [CallAddEventListener closeArgs, CallClose]
   \<and> listeners (sockets w1 0) = [(JStr ''close'', JFun HandleWebSocketCloseEvent, False)]
   \<and> reconnectInterval w1 = None
   \<and> reconnectInterval w2 = Some 1
   \<and> instance_ref w3 = 1
   \<and> sockets w3 1 = \<lparr>ws_url = JStr ''wss://x/y'', readyState = CONNECTING, listeners = [], calls = []\<rparr>
   \<and> console w3 = [1]"
proof -
  let ?evs = "[SocketOpens 0]"
  let ?w = "run example_rt (example_manager JUndefined) ?evs"
  have 1: "new_ReconnectingWebSocket (JStr ''wss://x/y'') JUndefined = Inr (example_manager JUndefined)"
    by (simp add: eval_defs)
  have 2: "list_all app_safe ?evs" by simp
  have 4: "readyState (sockets ?w (instance_ref ?w)) = OPEN"
    by (simp add: eval_defs)
  have 5: "(JStr ''close'', JFun HandleWebSocketCloseEvent, False)
             \<in> set (listeners (sockets ?w (instance_ref ?w)))"
    by (simp add: eval_defs)
  from close_then_reconnects [OF 1 2 refl 4 5]
  show ?thesis by (simp add: eval_defs)
qed

end
